theory Spec2Isabelle
  imports Complex_Main "HOL-Library.AList" "HOL-Library.Char_ord" "HOL-Library.List_Lexorder"
    "HOL-Library.Log_Nat" "HOL-Library.Multiset"
begin

section \<open>The BRFSS ingestion pipeline of \<^verbatim>\<open>ingest.py\<close>\<close>

text \<open>
  The script fetches records page by page from an HTTP source, checks the resulting
  table and loads it into a warehouse table. The three external collaborators are
  parameters of the model:
  \<^item> the HTTP source is a function from the request parameters to a page or an exception;
  \<^item> the warehouse client is a record of operations on a world state of any type;
  \<^item> the table library is modelled by the few operations the script uses: building a
    frame from records, \<^verbatim>\<open>len\<close>, \<^verbatim>\<open>columns\<close>, the null count of a column and
    \<^verbatim>\<open>sort_values\<close>.
  Exceptions are values of type \<open>exn\<close>; a function that may raise returns \<open>exn + 'a\<close>.
  Of the log output, the model keeps the warning and error lines of the validators and of
  the driver and the null report; the informational banners are left out. The
  percentages of the null report are doubles: each operation on them rounds its exact
  result to the nearest double, a tie going to the even significand.
\<close>

subsection \<open>Exceptions and configuration\<close>

datatype exn =
    RequestException string
  | ValidationError string
  | ValueError string
  | KeyError string
  | OtherException string

definition PROJECT_ID :: string where
  "PROJECT_ID = ''enduring-broker-483700-j3''"

definition DATASET_ID :: string where
  "DATASET_ID = ''candidate_adamdanisovszky_mental_health''"

definition TABLE_ID :: string where
  "TABLE_ID = ''raw_cdc_brfss''"

definition SERVICE_ACCOUNT_KEY :: string where
  "SERVICE_ACCOUNT_KEY = ''enduring-broker-483700-j3@appspot.gserviceaccount.com''"

definition EXPECTED_COLUMNS :: "string list" where
  "EXPECTED_COLUMNS = [''year'', ''locationabbr'', ''locationdesc'', ''class'', ''topic'',
     ''question'', ''data_value'', ''sample_size'']"

definition MIN_ROW_COUNT :: nat where
  "MIN_ROW_COUNT = 100"

definition MAX_NULL_PERCENTAGE :: rat where
  "MAX_NULL_PERCENTAGE = 50"

subsection \<open>Records and request parameters\<close>

text \<open>
  A record of the source is a JSON object: a dictionary from field names to scalars, kept
  as an association list in insertion order. Request parameters are a dictionary too.
\<close>

datatype scalar = Null | Str string | Num int

type_synonym api_record = "(string \<times> scalar) list"

datatype param = PInt int | PStr string

type_synonym params = "(string \<times> param) list"

text \<open>\<^verbatim>\<open>d.update(other)\<close>: each key of \<open>other\<close> is overwritten in place or appended.\<close>

definition dict_update :: "('k \<times> 'v) list \<Rightarrow> ('k \<times> 'v) list \<Rightarrow> ('k \<times> 'v) list" where
  "dict_update d other = foldl (\<lambda>acc (k, v). AList.update k v acc) d other"

subsection \<open>The extractor\<close>

text \<open>
  \<^verbatim>\<open>fetch_brfss_data\<close>: builds the request parameters, merges the filters when the
  dictionary is given and not empty, and performs one GET. A request exception is
  raised again to the caller.
\<close>

definition fetch_brfss_data ::
  "(params \<Rightarrow> exn + 'r list) \<Rightarrow> nat \<Rightarrow> nat \<Rightarrow> params option \<Rightarrow> exn + 'r list" where
  "fetch_brfss_data http limit offset filters =
     (let params = [(''$limit'', PInt (int limit)), (''$offset'', PInt (int offset))];
          params = (case filters of
                      None \<Rightarrow> params
                    | Some f \<Rightarrow> if f \<noteq> [] then dict_update params f else params)
      in http params)"

text \<open>The slice \<^verbatim>\<open>xs[:m]\<close>; a negative bound counts from the end.\<close>

definition slice_to :: "'r list \<Rightarrow> int \<Rightarrow> 'r list" where
  "slice_to xs m = (if 0 \<le> m then take (nat m) xs else take (length xs - nat (- m)) xs)"

text \<open>
  The test \<^verbatim>\<open>if max_records and len(all_data) >= max_records\<close> and the truncation
  it guards: \<^verbatim>\<open>None\<close> and \<open>0\<close> are both false in Python, every other integer is
  true. The result is the truncated accumulator when the branch is taken.
\<close>

definition cap_reached :: "int option \<Rightarrow> 'r list \<Rightarrow> 'r list option" where
  "cap_reached max_records all_data =
     (case max_records of
        None \<Rightarrow> None
      | Some m \<Rightarrow>
          if m \<noteq> 0 \<and> m \<le> int (length all_data) then Some (slice_to all_data m) else None)"

text \<open>
  The \<^verbatim>\<open>while True\<close> loop of \<^verbatim>\<open>fetch_all_brfss_data\<close>, with the accumulator and the
  offset as arguments. The loop need not end (a source may serve full pages for ever), so
  the result is an option and \<open>None\<close> stands for a run that does not return.
\<close>

partial_function (option) fetch_loop ::
  "(params \<Rightarrow> exn + 'r list) \<Rightarrow> params option \<Rightarrow> int option \<Rightarrow> nat \<Rightarrow> 'r list \<Rightarrow> nat
     \<Rightarrow> (exn + 'r list) option" where
  "fetch_loop http filters max_records limit all_data offset =
     (case fetch_brfss_data http limit offset filters of
        Inl e \<Rightarrow> Some (Inl e)
      | Inr data \<Rightarrow>
          if data = [] then Some (Inr all_data)
          else (case cap_reached max_records (all_data @ data) of
                  Some truncated \<Rightarrow> Some (Inr truncated)
                | None \<Rightarrow>
                    if length data < limit then Some (Inr (all_data @ data))
                    else fetch_loop http filters max_records limit (all_data @ data)
                           (offset + limit)))"

definition fetch_all_brfss_data ::
  "(params \<Rightarrow> exn + 'r list) \<Rightarrow> params option \<Rightarrow> int option \<Rightarrow> (exn + 'r list) option" where
  "fetch_all_brfss_data http filters max_records = fetch_loop http filters max_records 10000 [] 0"

subsection \<open>The table\<close>

text \<open>
  A frame has column labels and rows. A row is the record it was built from; a cell whose
  field is absent from the record or holds \<^verbatim>\<open>null\<close> is a null cell (\<^verbatim>\<open>isna\<close>).
\<close>

record DataFrame =
  columns :: "string list"
  rows :: "api_record list"

definition len :: "DataFrame \<Rightarrow> nat" where
  "len df = length (rows df)"

definition isna :: "api_record \<Rightarrow> string \<Rightarrow> bool" where
  "isna r c = (case map_of r c of None \<Rightarrow> True | Some v \<Rightarrow> v = Null)"

text \<open>\<^verbatim>\<open>df[column].isna().sum()\<close>\<close>

definition null_count_of :: "DataFrame \<Rightarrow> string \<Rightarrow> nat" where
  "null_count_of df c = length (filter (\<lambda>r. isna r c) (rows df))"

text \<open>
  \<^verbatim>\<open>pd.DataFrame(data)\<close> for a list of dictionaries: the columns are the union of the
  keys, each taken where it first appears.
\<close>

definition add_column :: "string list \<Rightarrow> string \<Rightarrow> string list" where
  "add_column cols k = (if k \<in> set cols then cols else cols @ [k])"

definition columns_of :: "api_record list \<Rightarrow> string list" where
  "columns_of data = foldl (\<lambda>cols r. foldl add_column cols (map fst r)) [] data"

definition DataFrame_of :: "api_record list \<Rightarrow> DataFrame" where
  "DataFrame_of data = \<lparr>columns = columns_of data, rows = data\<rparr>"

subsection \<open>Doubles\<close>

text \<open>
  A double is kept as the rational number it denotes, or it is \<^verbatim>\<open>nan\<close>. Rounding to the
  nearest integer, a tie going to the even one, is \<^verbatim>\<open>rint\<close>.
\<close>

datatype npfloat = Finite rat | NaN

definition round_half_even :: "rat \<Rightarrow> int" where
  "round_half_even x =
     (let f = \<lfloor>x\<rfloor>; d = x - of_int f
      in if d < 1 / 2 then f else if 1 / 2 < d then f + 1 else if even f then f else f + 1)"

text \<open>The exponent \<open>e\<close> of a positive rational: \<open>2 powi e \<le> x < 2 powi (e + 1)\<close>.\<close>

definition exponent_of :: "rat \<Rightarrow> int" where
  "exponent_of x =
     (case quotient_of x of
        (a, b) \<Rightarrow> let e = bitlen a - bitlen b in if 2 powi e \<le> x then e else e - 1)"

text \<open>
  The double nearest to a rational: a significand of 53 bits, the spacing never below
  \<open>2 powi (- 1074)\<close>, a tie going to the even significand. No value of the null check
  comes near the largest double, so overflow is left out.
\<close>

definition nearest_double :: "rat \<Rightarrow> rat" where
  "nearest_double x =
     (if x = 0 then 0
      else let u = 2 powi (max (exponent_of \<bar>x\<bar> - 52) (- 1074))
           in of_int (round_half_even (x / u)) * u)"

text \<open>
  \<^verbatim>\<open>(null_count / len(df)) * 100\<close>: both counts become doubles, the quotient and the
  product are rounded. A frame without rows has the null count 0, and \<open>0 / 0\<close> is
  \<^verbatim>\<open>nan\<close> (with a runtime warning, no exception).
\<close>

definition null_percentage_of :: "DataFrame \<Rightarrow> string \<Rightarrow> npfloat" where
  "null_percentage_of df c =
     (if len df = 0 then NaN
      else Finite (nearest_double
             (nearest_double (nearest_double (of_nat (null_count_of df c)) /
                              nearest_double (of_nat (len df))) * 100)))"

text \<open>
  \<^verbatim>\<open>round(x, 2)\<close> of a double, as the library computes it: \<^verbatim>\<open>rint(x * 100) / 100\<close>, the
  product and the quotient rounded to doubles. \<^verbatim>\<open>nan\<close> stays \<^verbatim>\<open>nan\<close>.
\<close>

definition np_round2 :: "npfloat \<Rightarrow> npfloat" where
  "np_round2 x =
     (case x of
        NaN \<Rightarrow> NaN
      | Finite v \<Rightarrow>
          Finite (nearest_double (of_int (round_half_even (nearest_double (v * 100))) / 100)))"

definition finite_value :: "npfloat \<Rightarrow> rat" where
  "finite_value x = (case x of Finite v \<Rightarrow> v | NaN \<Rightarrow> 0)"

subsection \<open>Log lines\<close>

text \<open>
  A log line is kept as its level and a message that holds the values the source formats
  into the text: the sorted missing columns, the rows of the null report, the columns
  above the null threshold with their percentages, the text of a validation error, the
  exception that ended the run, and for a completed run the row count and the table.
\<close>

record null_row =
  column :: string
  null_count :: nat
  null_percentage :: npfloat

datatype message =
    MissingColumns "string list"
  | NullReport "null_row list"
  | HighNulls "(string \<times> rat) list"
  | ValidationFailed string
  | NoDataFetched
  | ValidationExit
  | PipelineFailed exn
  | PipelineCompleted nat string

datatype level = INFO | WARNING | ERROR

type_synonym log = "(level \<times> message) list"

subsection \<open>Formatting\<close>

text \<open>\<^verbatim>\<open>str(n)\<close> for a natural number.\<close>

fun str_nat :: "nat \<Rightarrow> string" where
  "str_nat n =
     (if n < 10 then [''0123456789'' ! n]
      else str_nat (n div 10) @ [''0123456789'' ! (n mod 10)])"

declare str_nat.simps [simp del]

subsection \<open>The validation gate\<close>

definition validate_row_count :: "DataFrame \<Rightarrow> log \<times> (exn + unit)" where
  "validate_row_count df =
     (let row_count = len df
      in if row_count < MIN_ROW_COUNT
         then ([], Inl (ValidationError
                 (''Row count validation failed: '' @ str_nat row_count @ '' rows '' @
                  ''(minimum required: '' @ str_nat MIN_ROW_COUNT @ '')'')))
         else ([], Inr ()))"

text \<open>
  \<^verbatim>\<open>validate_schema\<close>: the missing expected columns are logged as a warning, sorted;
  only a frame without any column raises.
\<close>

definition missing_columns :: "DataFrame \<Rightarrow> string list" where
  "missing_columns df = filter (\<lambda>c. c \<notin> set (columns df)) (remdups EXPECTED_COLUMNS)"

definition validate_schema :: "DataFrame \<Rightarrow> log \<times> (exn + unit)" where
  "validate_schema df =
     (let missing = missing_columns df;
          lg = (if missing \<noteq> [] then [(WARNING, MissingColumns (sort missing))] else [])
      in if columns df = []
         then (lg, Inl (ValidationError ''Schema validation failed: DataFrame has no columns''))
         else (lg, Inr ()))"

text \<open>
  The loop of \<^verbatim>\<open>validate_null_checks\<close> over the columns, with the two accumulators.
  The report takes the percentage as the library computes and rounds it. For a label that
  occurs twice among the columns, \<^verbatim>\<open>df[column]\<close> is a frame and the percentage a
  series, whose truth value in the comparison raises \<^verbatim>\<open>ValueError\<close>. The comparison
  with the threshold is kept on the exact quotient of the counts, with which the comparison
  on doubles agrees (\<open>threshold_test_on_doubles\<close>); \<^verbatim>\<open>nan\<close> is not above the
  threshold.
\<close>

fun null_loop ::
  "DataFrame \<Rightarrow> string list \<Rightarrow> null_row list \<Rightarrow> (string \<times> rat) list
     \<Rightarrow> exn + (null_row list \<times> (string \<times> rat) list)" where
  "null_loop df [] null_report critical_failures = Inr (null_report, critical_failures)"
| "null_loop df (c # cs) null_report critical_failures =
     (let n = null_count_of df c;
          pct = (of_nat n / of_nat (len df)) * 100;
          null_report = null_report @
            [\<lparr>column = c, null_count = n,
              null_percentage = np_round2 (null_percentage_of df c)\<rparr>]
      in if 1 < count_list (columns df) c
         then Inl (ValueError ''The truth value of a Series is ambiguous'')
         else null_loop df cs null_report
                (if 0 < len df \<and> MAX_NULL_PERCENTAGE < pct then critical_failures @ [(c, pct)]
                 else critical_failures))"

text \<open>
  \<^verbatim>\<open>sort_values('null_percentage', ascending=False)\<close>: descending in the key, the rows
  with \<^verbatim>\<open>nan\<close> last. Rows with equal keys are kept here in their order; the library
  does not promise it.
\<close>

definition sort_values_desc :: "null_row list \<Rightarrow> null_row list" where
  "sort_values_desc rs =
     rev (sort_key (\<lambda>r. finite_value (null_percentage r))
            (rev (filter (\<lambda>r. null_percentage r \<noteq> NaN) rs))) @
     filter (\<lambda>r. null_percentage r = NaN) rs"

text \<open>
  \<^verbatim>\<open>validate_null_checks\<close>: an empty report has no column to sort by, and sorting it
  raises \<^verbatim>\<open>KeyError\<close>. High null percentages are logged as a warning, never raised.
\<close>

definition validate_null_checks :: "DataFrame \<Rightarrow> log \<times> (exn + unit)" where
  "validate_null_checks df =
     (case null_loop df (columns df) [] [] of
        Inl e \<Rightarrow> ([], Inl e)
      | Inr (null_report, critical_failures) \<Rightarrow>
          if null_report = [] then ([], Inl (KeyError ''null_percentage''))
          else ([(INFO, NullReport (sort_values_desc null_report))] @
                (if critical_failures \<noteq> [] then [(WARNING, HighNulls critical_failures)]
                 else []),
                Inr ()))"

text \<open>The body of the \<^verbatim>\<open>try\<close> block of \<^verbatim>\<open>validate_data\<close>: the three checks in order.\<close>

definition run_checks :: "DataFrame \<Rightarrow> log \<times> (exn + unit)" where
  "run_checks df =
     (case validate_row_count df of
        (l1, Inl e) \<Rightarrow> (l1, Inl e)
      | (l1, Inr _) \<Rightarrow>
          (case validate_schema df of
             (l2, Inl e) \<Rightarrow> (l1 @ l2, Inl e)
           | (l2, Inr _) \<Rightarrow>
               (case validate_null_checks df of (l3, r) \<Rightarrow> (l1 @ l2 @ l3, r))))"

text \<open>
  \<^verbatim>\<open>validate_data\<close>: the list \<^verbatim>\<open>warnings\<close> is created empty and returned as it is when
  the checks pass; a \<^verbatim>\<open>ValidationError\<close> is caught and its message returned; any other
  exception leaves the function.
\<close>

definition validate_data :: "DataFrame \<Rightarrow> log \<times> (exn + bool \<times> string list)" where
  "validate_data df =
     (let warnings = []
      in case run_checks df of
           (lg, Inr _) \<Rightarrow> (lg, Inr (True, warnings))
         | (lg, Inl (ValidationError msg)) \<Rightarrow>
             (lg @ [(ERROR, ValidationFailed msg)], Inr (False, [msg]))
         | (lg, Inl e) \<Rightarrow> (lg, Inl e))"

subsection \<open>The loader\<close>

text \<open>
  The warehouse client: each operation takes the world and answers with a value or an
  exception, and a new world. The session keeps, beside the world, the calls made so far.
\<close>

datatype write_disposition = WRITE_TRUNCATE | WRITE_APPEND | WRITE_EMPTY

record job_config =
  write_disposition :: write_disposition
  autodetect :: bool

record table =
  table_project :: string
  table_dataset_id :: string
  table_table_id :: string
  table_num_rows :: nat

record 'w client =
  new_client :: "string option \<Rightarrow> string \<Rightarrow> 'w \<Rightarrow> (exn + unit) \<times> 'w"
  get_dataset :: "string \<Rightarrow> 'w \<Rightarrow> (exn + unit) \<times> 'w"
  create_dataset :: "string \<Rightarrow> string \<Rightarrow> 'w \<Rightarrow> (exn + unit) \<times> 'w"
  load_table_from_dataframe :: "DataFrame \<Rightarrow> string \<Rightarrow> job_config \<Rightarrow> 'w \<Rightarrow> (exn + unit) \<times> 'w"
  job_result :: "'w \<Rightarrow> (exn + unit) \<times> 'w"
  get_table :: "string \<Rightarrow> 'w \<Rightarrow> (exn + table) \<times> 'w"

datatype bq_call =
    NewClient "string option" string
  | GetDataset string
  | CreateDataset string string
  | LoadTableFromDataframe DataFrame string job_config
  | JobResult
  | GetTable string

record 'w session =
  world :: 'w
  calls :: "bq_call list"

definition perform ::
  "bq_call \<Rightarrow> ('w \<Rightarrow> (exn + 'a) \<times> 'w) \<Rightarrow> 'w session \<Rightarrow> (exn + 'a) \<times> 'w session" where
  "perform c operation s =
     (case operation (world s) of (r, w) \<Rightarrow> (r, \<lparr>world = w, calls = calls s @ [c]\<rparr>))"

text \<open>
  The step "create dataset if it doesn't exist" of \<^verbatim>\<open>load_to_bigquery\<close>:
  \<^verbatim>\<open>get_dataset\<close> inside \<^verbatim>\<open>try\<close>, and for every exception \<^verbatim>\<open>create_dataset\<close> with
  the location \<^verbatim>\<open>US\<close>.
\<close>

definition ensure_dataset :: "'w client \<Rightarrow> string \<Rightarrow> 'w session \<Rightarrow> (exn + unit) \<times> 'w session" where
  "ensure_dataset cl dataset_ref s =
     (case perform (GetDataset dataset_ref) (get_dataset cl dataset_ref) s of
        (Inr _, s) \<Rightarrow> (Inr (), s)
      | (Inl _, s) \<Rightarrow>
          perform (CreateDataset dataset_ref ''US'') (create_dataset cl dataset_ref ''US'') s)"

text \<open>
  The write of \<^verbatim>\<open>load_to_bigquery\<close>: the load job with \<^verbatim>\<open>WRITE_TRUNCATE\<close> and
  schema detection, the wait for the job, and the table read back.
\<close>

definition replace_table ::
  "'w client \<Rightarrow> DataFrame \<Rightarrow> string \<Rightarrow> 'w session \<Rightarrow> (exn + table) \<times> 'w session" where
  "replace_table cl df table_ref s =
     (let job_config = \<lparr>write_disposition = WRITE_TRUNCATE, autodetect = True\<rparr>
      in case perform (LoadTableFromDataframe df table_ref job_config)
                (load_table_from_dataframe cl df table_ref job_config) s of
           (Inl e, s) \<Rightarrow> (Inl e, s)
         | (Inr _, s) \<Rightarrow>
             (case perform JobResult (job_result cl) s of
                (Inl e, s) \<Rightarrow> (Inl e, s)
              | (Inr _, s) \<Rightarrow> perform (GetTable table_ref) (get_table cl table_ref) s))"

text \<open>
  \<^verbatim>\<open>load_to_bigquery\<close>: the client is built with the credentials when a path is given
  and not empty; then the dataset is ensured and the table written.
\<close>

definition load_to_bigquery ::
  "'w client \<Rightarrow> DataFrame \<Rightarrow> string \<Rightarrow> string \<Rightarrow> string \<Rightarrow> string option \<Rightarrow> 'w session
     \<Rightarrow> (exn + table) \<times> 'w session" where
  "load_to_bigquery cl df project_id dataset_id table_id credentials_path s =
     (let credentials = (case credentials_path of
                           None \<Rightarrow> None
                         | Some path \<Rightarrow> if path \<noteq> [] then Some path else None)
      in case perform (NewClient credentials project_id)
                (new_client cl credentials project_id) s of
           (Inl e, s) \<Rightarrow> (Inl e, s)
         | (Inr _, s) \<Rightarrow>
             (case ensure_dataset cl (project_id @ ''.'' @ dataset_id) s of
                (Inl e, s) \<Rightarrow> (Inl e, s)
              | (Inr _, s) \<Rightarrow>
                  replace_table cl df (project_id @ ''.'' @ dataset_id @ ''.'' @ table_id) s))"

subsection \<open>The driver\<close>

text \<open>
  A run of \<^verbatim>\<open>main\<close> ends the process with status 1 through \<^verbatim>\<open>sys.exit(1)\<close> (which
  the handler for \<^verbatim>\<open>Exception\<close> does not catch) or returns, and the status is 0.
\<close>

record 'w outcome =
  exit_code :: nat
  logged :: log
  session :: "'w session"

text \<open>The part of \<^verbatim>\<open>main\<close> after the extraction has returned \<open>data\<close>.\<close>

definition main_with_data :: "'w client \<Rightarrow> api_record list \<Rightarrow> 'w session \<Rightarrow> 'w outcome" where
  "main_with_data cl data s =
     (if data = []
      then \<lparr>exit_code = 1, logged = [(ERROR, NoDataFetched)], session = s\<rparr>
      else
        let df = DataFrame_of data
        in case validate_data df of
             (lg, Inl e) \<Rightarrow>
               \<lparr>exit_code = 1, logged = lg @ [(ERROR, PipelineFailed e)], session = s\<rparr>
           | (lg, Inr (validation_passed, warnings)) \<Rightarrow>
               if \<not> validation_passed
               then \<lparr>exit_code = 1, logged = lg @ [(ERROR, ValidationExit)], session = s\<rparr>
               else
                 (case load_to_bigquery cl df PROJECT_ID DATASET_ID TABLE_ID
                         (if SERVICE_ACCOUNT_KEY \<noteq> ''path/to/your-service-account-key.json''
                          then Some SERVICE_ACCOUNT_KEY else None) s of
                    (Inl e, s) \<Rightarrow>
                      \<lparr>exit_code = 1, logged = lg @ [(ERROR, PipelineFailed e)], session = s\<rparr>
                  | (Inr t, s) \<Rightarrow>
                      \<lparr>exit_code = 0,
                       logged = lg @ [(INFO, PipelineCompleted (len df)
                         (table_project t @ ''.'' @ table_dataset_id t @ ''.'' @ table_table_id t))],
                       session = s\<rparr>))"

text \<open>
  \<^verbatim>\<open>main\<close>: extraction with the empty filter dictionary and no record cap. An exception
  of the extraction is caught by the handler; an extraction that does not return leaves
  the run without an outcome.
\<close>

definition main :: "(params \<Rightarrow> exn + api_record list) \<Rightarrow> 'w client \<Rightarrow> 'w \<Rightarrow> 'w outcome option" where
  "main http cl w =
     (let s = \<lparr>world = w, calls = []\<rparr>
      in case fetch_all_brfss_data http (Some []) None of
           None \<Rightarrow> None
         | Some (Inl e) \<Rightarrow>
             Some \<lparr>exit_code = 1, logged = [(ERROR, PipelineFailed e)], session = s\<rparr>
         | Some (Inr data) \<Rightarrow> Some (main_with_data cl data s))"

subsection \<open>Page sequences\<close>

text \<open>
  Of a sequence of pages served to the successive requests, the loop without a record
  cap receives the pages up to and including the first that is shorter than the limit.
\<close>

fun pages_received :: "nat \<Rightarrow> 'r list list \<Rightarrow> 'r list list" where
  "pages_received limit [] = []"
| "pages_received limit (p # ps) =
     (if length p < limit then [p] else p # pages_received limit ps)"

text \<open>Sources used as examples: three pages of 10000, 10000 and 4000 records, and one page.\<close>

definition three_pages :: "params \<Rightarrow> exn + api_record list" where
  "three_pages p =
     (if map_of p ''$offset'' = Some (PInt 0) then Inr (replicate 10000 [(''year'', Str ''2020'')])
      else if map_of p ''$offset'' = Some (PInt 10000)
      then Inr (replicate 10000 [(''year'', Str ''2021'')])
      else if map_of p ''$offset'' = Some (PInt 20000)
      then Inr (replicate 4000 [(''year'', Str ''2022'')])
      else Inr [])"

definition one_page :: "api_record list \<Rightarrow> params \<Rightarrow> exn + api_record list" where
  "one_page page p = (if map_of p ''$offset'' = Some (PInt 0) then Inr page else Inr [])"

subsection \<open>Example tables and an example client\<close>

text \<open>
  A table of 50 rows; a table of 100 rows that has the column \<^verbatim>\<open>year\<close> only; 500
  records whose field \<^verbatim>\<open>data_value\<close> is null in 300 of them; a table without rows.
\<close>

definition small_data :: "api_record list" where
  "small_data = replicate 50 [(''year'', Str ''2020'')]"

definition year_only_frame :: DataFrame where
  "year_only_frame = \<lparr>columns = [''year''], rows = replicate 100 [(''year'', Str ''2020'')]\<rparr>"

definition sparse_data :: "api_record list" where
  "sparse_data =
     replicate 300 [(''data_value'', Null)] @ replicate 200 [(''data_value'', Str ''7.5'')]"

definition empty_frame :: DataFrame where
  "empty_frame = \<lparr>columns = [''year''], rows = []\<rparr>"

text \<open>A table of 160 rows with 23 nulls in one column and 49 in the other.\<close>

definition rounding_frame :: DataFrame where
  "rounding_frame =
     \<lparr>columns = [''year'', ''topic''],
      rows = replicate 23 [(''year'', Null), (''topic'', Null)] @
             replicate 26 [(''year'', Str ''2020''), (''topic'', Null)] @
             replicate 111 [(''year'', Str ''2020''), (''topic'', Str ''Depression'')]\<rparr>"

text \<open>
  A client whose operations all succeed, except that the dataset is not found. Its world
  is the number of rows of the destination table.
\<close>

definition ok_client :: "nat client" where
  "ok_client =
     \<lparr>new_client = (\<lambda>credentials project_id w. (Inr (), w)),
      get_dataset = (\<lambda>dataset_ref w. (Inl (OtherException ''NotFound''), w)),
      create_dataset = (\<lambda>dataset_ref location w. (Inr (), w)),
      load_table_from_dataframe = (\<lambda>df table_ref job_config w. (Inr (), len df)),
      job_result = (\<lambda>w. (Inr (), w)),
      get_table = (\<lambda>table_ref w.
        (Inr \<lparr>table_project = PROJECT_ID, table_dataset_id = DATASET_ID,
              table_table_id = TABLE_ID, table_num_rows = w\<rparr>, w))\<rparr>"


section \<open>Properties of the extractor\<close>

lemma cap_reached_zero: "cap_reached (Some 0) xs = None"
  by (simp add: cap_reached_def)

lemma cap_reached_None: "cap_reached None xs = None"
  by (simp add: cap_reached_def)

lemma pages_received_all:
  "\<forall>p\<in>set (butlast ps). limit \<le> length p \<Longrightarrow> pages_received limit ps = ps"
  by (induction ps) (auto split: if_splits)

text \<open>
  The loop on a source that serves the pages \<open>ps\<close> from the current offset on, the last of
  them short: it returns, with the pages received appended to the accumulator.
\<close>

lemma fetch_loop_pages:
  assumes "0 < limit" and "ps \<noteq> []" and "length (last ps) < limit"
    and "\<forall>k<length ps. fetch_brfss_data http limit (offset + k * limit) filters = Inr (ps ! k)"
  shows "fetch_loop http filters None limit acc offset =
           Some (Inr (acc @ concat (pages_received limit ps)))"
  using assms
proof (induction ps arbitrary: acc offset)
  case Nil
  then show ?case by simp
next
  case (Cons p ps)
  from Cons.prems(4) have p: "fetch_brfss_data http limit offset filters = Inr p"
    by fastforce
  show ?case
  proof (cases "length p < limit")
    case True
    then show ?thesis
      using p \<open>0 < limit\<close>
      by (subst fetch_loop.simps) (simp add: cap_reached_None)
  next
    case False
    with Cons.prems(3) have ne: "ps \<noteq> []" by auto
    with Cons.prems(3) have l: "length (last ps) < limit" by simp
    have "\<forall>k<length ps.
            fetch_brfss_data http limit ((offset + limit) + k * limit) filters = Inr (ps ! k)"
    proof (intro allI impI)
      fix k assume "k < length ps"
      then have "fetch_brfss_data http limit (offset + Suc k * limit) filters =
                   Inr ((p # ps) ! Suc k)"
        using Cons.prems(4) by (metis Suc_less_eq length_Cons)
      then show "fetch_brfss_data http limit ((offset + limit) + k * limit) filters =
                   Inr (ps ! k)"
        by (simp add: add.assoc)
    qed
    from Cons.IH [OF \<open>0 < limit\<close> ne l this]
    have "fetch_loop http filters None limit (acc @ p) (offset + limit) =
            Some (Inr ((acc @ p) @ concat (pages_received limit ps)))" .
    moreover have "p \<noteq> []" using False \<open>0 < limit\<close> by auto
    ultimately show ?thesis
      using p False
      by (subst fetch_loop.simps) (simp add: cap_reached_None)
  qed
qed

text \<open>A cap of \<open>0\<close> and no cap: a run that returns under one returns the same under the other.\<close>

lemma fetch_loop_falsy_cap:
  assumes run: "fetch_loop http filters mr limit acc offset = Some r"
  shows "\<forall>mr'::int option. (mr = None \<or> mr = Some 0) \<longrightarrow> (mr' = None \<or> mr' = Some 0) \<longrightarrow>
           fetch_loop http filters mr' limit acc offset = Some r"
proof (rule fetch_loop.raw_induct [OF _ run])
  fix f http filters mr limit acc offset r
  assume IH: "\<And>http filters mr limit acc offset r.
      f http filters mr limit acc offset = Some r \<Longrightarrow>
      \<forall>mr'::int option. (mr = None \<or> mr = Some 0) \<longrightarrow> (mr' = None \<or> mr' = Some 0) \<longrightarrow>
        fetch_loop http filters mr' limit acc offset = Some r"
    and step: "(case fetch_brfss_data http limit offset filters of
        Inl e \<Rightarrow> Some (Inl e)
      | Inr data \<Rightarrow>
          if data = [] then Some (Inr acc)
          else (case cap_reached mr (acc @ data) of
                  None \<Rightarrow>
                    if length data < limit then Some (Inr (acc @ data))
                    else f http filters mr limit (acc @ data) (offset + limit)
                | Some truncated \<Rightarrow> Some (Inr truncated))) = Some (r :: exn + 'a list)"
  show "\<forall>mr'::int option. (mr = None \<or> mr = Some 0) \<longrightarrow> (mr' = None \<or> mr' = Some 0) \<longrightarrow>
          fetch_loop http filters mr' limit acc offset = Some r"
  proof (intro allI impI)
    fix mr' :: "int option"
    assume mr: "mr = None \<or> mr = Some 0" and mr': "mr' = None \<or> mr' = Some 0"
    have c: "cap_reached mr xs = None" "cap_reached mr' xs = None" for xs :: "'a list"
      using mr mr' by (auto simp: cap_reached_zero cap_reached_None)
    show "fetch_loop http filters mr' limit acc offset = Some r"
      using step IH mr mr'
      by (subst fetch_loop.simps) (auto simp: c split: sum.splits if_splits)
  qed
qed

lemma fetch_loop_zero_eq_None:
  "fetch_loop http filters (Some 0) limit acc offset =
   fetch_loop http filters None limit acc offset"
proof (cases "fetch_loop http filters (Some 0) limit acc offset")
  case None
  show ?thesis
  proof (cases "fetch_loop http filters None limit acc offset")
    case (Some r)
    from fetch_loop_falsy_cap [OF this, rule_format, of "Some 0"] None
    show ?thesis by simp
  qed (simp add: None)
next
  case (Some r)
  from fetch_loop_falsy_cap [OF this, rule_format, of None] Some
  show ?thesis by simp
qed

text \<open>
  Under a positive cap the loop, entered with fewer records than the cap, never returns
  more records than the cap.
\<close>

lemma fetch_loop_positive_cap:
  assumes run: "fetch_loop http filters mr limit acc offset = Some r"
  shows "\<forall>m ds. mr = Some m \<longrightarrow> 0 < m \<longrightarrow> int (length acc) < m \<longrightarrow> r = Inr ds \<longrightarrow>
           int (length ds) \<le> m"
proof (rule fetch_loop.raw_induct [OF _ run])
  fix f http filters mr limit acc offset r
  assume IH: "\<And>http filters mr limit acc offset r.
      f http filters mr limit acc offset = Some r \<Longrightarrow>
      \<forall>m ds. mr = Some m \<longrightarrow> 0 < m \<longrightarrow> int (length acc) < m \<longrightarrow> r = Inr ds \<longrightarrow>
           int (length ds) \<le> m"
    and step: "(case fetch_brfss_data http limit offset filters of
        Inl e \<Rightarrow> Some (Inl e)
      | Inr data \<Rightarrow>
          if data = [] then Some (Inr acc)
          else (case cap_reached mr (acc @ data) of
                  None \<Rightarrow>
                    if length data < limit then Some (Inr (acc @ data))
                    else f http filters mr limit (acc @ data) (offset + limit)
                | Some truncated \<Rightarrow> Some (Inr truncated))) = Some (r :: exn + 'a list)"
  show "\<forall>m ds. mr = Some m \<longrightarrow> 0 < m \<longrightarrow> int (length acc) < m \<longrightarrow> r = Inr ds \<longrightarrow>
           int (length ds) \<le> m"
  proof (intro allI impI)
    fix m ds assume mr: "mr = Some m" "0 < m" "int (length acc) < m" and r: "r = Inr ds"
    show "int (length ds) \<le> m"
      using step IH mr r
      by (fastforce simp: cap_reached_def slice_to_def split: sum.splits if_splits)
  qed
qed

lemma fetch_all_positive_cap:
  "fetch_all_brfss_data http filters (Some m) = Some (Inr ds) \<Longrightarrow> 0 < m \<Longrightarrow>
     int (length ds) \<le> m"
  using fetch_loop_positive_cap [of http filters "Some m" 10000 "[]" 0 "Inr ds"]
  by (simp add: fetch_all_brfss_data_def)

lemma three_pages_served:
  "fetch_brfss_data three_pages 10000 0 None = Inr (replicate 10000 [(''year'', Str ''2020'')])"
  "fetch_brfss_data three_pages 10000 10000 None =
     Inr (replicate 10000 [(''year'', Str ''2021'')])"
  "fetch_brfss_data three_pages 10000 20000 None =
     Inr (replicate 4000 [(''year'', Str ''2022'')])"
  by (simp_all add: fetch_brfss_data_def three_pages_def)

lemma one_page_served:
  "fetch_brfss_data (one_page page) limit 0 None = Inr page"
  "fetch_brfss_data (one_page page) limit 0 (Some []) = Inr page"
  by (simp_all add: fetch_brfss_data_def one_page_def)

text \<open>
  The loop under a positive cap, entered with fewer records than the cap, on a source that
  serves the pages \<open>ps\<close>: it returns the first \<open>m\<close> records of what the pages hold, that
  is exactly \<open>m\<close> records unless the pages end before.
\<close>

lemma fetch_loop_pages_cap:
  assumes "0 < limit" and "ps \<noteq> []" and "length (last ps) < limit"
    and "\<forall>k<length ps. fetch_brfss_data http limit (offset + k * limit) filters = Inr (ps ! k)"
    and "0 < m" and "int (length acc) < m"
  shows "fetch_loop http filters (Some m) limit acc offset =
           Some (Inr (take (nat m) (acc @ concat (pages_received limit ps))))"
  using assms
proof (induction ps arbitrary: acc offset)
  case Nil
  then show ?case by simp
next
  case (Cons p ps)
  from Cons.prems(4) have p: "fetch_brfss_data http limit offset filters = Inr p"
    by fastforce
  show ?case
  proof (cases "p = []")
    case True
    then show ?thesis
      using p Cons.prems(1,6)
      by (subst fetch_loop.simps) simp
  next
    case False
    show ?thesis
    proof (cases "m \<le> int (length (acc @ p))")
      case True
      then have "cap_reached (Some m) (acc @ p) = Some (take (nat m) (acc @ p))"
        using Cons.prems(5) by (simp add: cap_reached_def slice_to_def)
      moreover have "take (nat m) (acc @ concat (pages_received limit (p # ps))) =
          take (nat m) (acc @ p)"
        using True by (auto simp: nat_le_iff)
      ultimately show ?thesis
        using p False by (subst fetch_loop.simps) simp
    next
      case nocap: False
      then have c: "cap_reached (Some m) (acc @ p) = None"
        by (simp add: cap_reached_def)
      show ?thesis
      proof (cases "length p < limit")
        case True
        then show ?thesis
          using p \<open>p \<noteq> []\<close> c nocap
          by (subst fetch_loop.simps) simp
      next
        case False
        with Cons.prems(3) have ne: "ps \<noteq> []" by auto
        with Cons.prems(3) have l: "length (last ps) < limit" by simp
        have s: "\<forall>k<length ps.
            fetch_brfss_data http limit ((offset + limit) + k * limit) filters = Inr (ps ! k)"
        proof (intro allI impI)
          fix k assume "k < length ps"
          then have "fetch_brfss_data http limit (offset + Suc k * limit) filters =
                       Inr ((p # ps) ! Suc k)"
            using Cons.prems(4) by (metis Suc_less_eq length_Cons)
          then show "fetch_brfss_data http limit ((offset + limit) + k * limit) filters =
                       Inr (ps ! k)"
            by (simp add: add.assoc)
        qed
        have a: "int (length (acc @ p)) < m" using nocap by simp
        from Cons.IH [OF Cons.prems(1) ne l s Cons.prems(5) a]
        show ?thesis
          using p \<open>p \<noteq> []\<close> c False
          by (subst fetch_loop.simps) simp
      qed
    qed
  qed
qed

lemma fetch_all_pages_cap:
  assumes "ps \<noteq> []" and "length (last ps) < 10000"
    and "\<forall>k<length ps. fetch_brfss_data http 10000 (k * 10000) filters = Inr (ps ! k)"
    and "0 < m"
  shows "fetch_all_brfss_data http filters (Some m) =
           Some (Inr (take (nat m) (concat (pages_received 10000 ps))))"
  using fetch_loop_pages_cap [of 10000 ps http 0 filters m "[]"] assms
  by (simp add: fetch_all_brfss_data_def)

text \<open>
  C1. The claim: for every \<^verbatim>\<open>max_records\<close> the extractor returns at most that many
  records. With \<^verbatim>\<open>max_records = 0\<close> and a source of one page holding one record the
  extractor returns that record: one record where the cap is zero. (For a positive cap
  the bound holds, see \<open>fetch_all_positive_cap\<close> and \<open>fetch_all_pages_cap\<close>.)
\<close>

theorem fetch_all_cap_zero_returns_record:
  "fetch_all_brfss_data (one_page [[(''year'', Str ''2020'')]]) None (Some 0) =
     Some (Inr [[(''year'', Str ''2020'')]])
   \<and> \<not> int (length [[(''year'', Str ''2020'')]]) \<le> 0"
  unfolding fetch_all_brfss_data_def
  by (subst fetch_loop.simps) (simp add: one_page_served cap_reached_zero)

text \<open>
  C4. Where the source serves a sequence of pages whose last page is shorter than the page
  size, the extraction without a record cap returns, and its result is the concatenation
  of the pages received, so that its size is the sum of their sizes; where every page
  before the last is full, all pages of the sequence are received. After a page has been
  received, the loop decides in this order: an empty page stops it; else a cap that is
  reached stops it with the truncated accumulator; else a short page stops it; else it
  goes on at the next offset.
\<close>

theorem extraction_short_final_page:
  assumes "ps \<noteq> []" and "length (last ps) < 10000"
    and "\<forall>k<length ps. fetch_brfss_data http 10000 (k * 10000) filters = Inr (ps ! k)"
  shows "(\<exists>ds. fetch_all_brfss_data http filters None = Some (Inr ds)
            \<and> ds = concat (pages_received 10000 ps)
            \<and> length ds = sum_list (map length (pages_received 10000 ps)))
         \<and> ((\<forall>p\<in>set (butlast ps). 10000 \<le> length p) \<longrightarrow> pages_received 10000 ps = ps)
         \<and> (fetch_brfss_data http limit offset filters = Inr data \<longrightarrow>
              fetch_loop http filters max_records limit all_data offset =
                (if data = [] then Some (Inr all_data)
                 else case cap_reached max_records (all_data @ data) of
                        Some truncated \<Rightarrow> Some (Inr truncated)
                      | None \<Rightarrow>
                          if length data < limit then Some (Inr (all_data @ data))
                          else fetch_loop http filters max_records limit (all_data @ data)
                                 (offset + limit)))"
proof (intro conjI impI)
  have "fetch_loop http filters None 10000 [] 0 =
          Some (Inr ([] @ concat (pages_received 10000 ps)))"
    using assms by (intro fetch_loop_pages) simp_all
  then show "\<exists>ds. fetch_all_brfss_data http filters None = Some (Inr ds)
            \<and> ds = concat (pages_received 10000 ps)
            \<and> length ds = sum_list (map length (pages_received 10000 ps))"
    by (simp add: fetch_all_brfss_data_def length_concat)
next
  assume "\<forall>p\<in>set (butlast ps). 10000 \<le> length p"
  then show "pages_received 10000 ps = ps" by (rule pages_received_all)
next
  assume "fetch_brfss_data http limit offset filters = Inr data"
  then show "fetch_loop http filters max_records limit all_data offset =
                (if data = [] then Some (Inr all_data)
                 else case cap_reached max_records (all_data @ data) of
                        Some truncated \<Rightarrow> Some (Inr truncated)
                      | None \<Rightarrow>
                          if length data < limit then Some (Inr (all_data @ data))
                          else fetch_loop http filters max_records limit (all_data @ data)
                                 (offset + limit))"
    by (subst fetch_loop.simps) simp
qed

lemma three_pages_all:
  "\<forall>k<length [replicate 10000 [(''year'', Str ''2020'')],
               replicate 10000 [(''year'', Str ''2021'')],
               replicate 4000 [(''year'', Str ''2022'')]].
     fetch_brfss_data three_pages 10000 (k * 10000) None =
       Inr ([replicate 10000 [(''year'', Str ''2020'')],
             replicate 10000 [(''year'', Str ''2021'')],
             replicate 4000 [(''year'', Str ''2022'')]] ! k)"
  by (simp add: All_less_Suc three_pages_served)

text \<open>
  Pages of 10000, 10000 and 4000 records give 24000 records; and the loop that holds
  10000 records under a cap of 15000 and receives a full page stops with 15000.
\<close>

theorem extraction_short_final_page_witness:
  "fetch_all_brfss_data three_pages None None =
     Some (Inr (replicate 10000 [(''year'', Str ''2020'')] @
                replicate 10000 [(''year'', Str ''2021'')] @
                replicate 4000 [(''year'', Str ''2022'')]))
   \<and> length (replicate 10000 [(''year'', Str ''2020'')] @
             replicate 10000 [(''year'', Str ''2021'')] @
             replicate 4000 [(''year'', Str ''2022'')]) = 24000
   \<and> fetch_loop three_pages None (Some 15000) 10000
        (replicate 10000 [(''year'', Str ''2020'')]) 10000 =
       Some (Inr (replicate 10000 [(''year'', Str ''2020'')] @
                  replicate 5000 [(''year'', Str ''2021'')]))"
  using extraction_short_final_page [of "[replicate 10000 [(''year'', Str ''2020'')],
      replicate 10000 [(''year'', Str ''2021'')], replicate 4000 [(''year'', Str ''2022'')]]"
      three_pages None 10000 10000 "replicate 10000 [(''year'', Str ''2021'')]" "Some 15000"
      "replicate 10000 [(''year'', Str ''2020'')]", OF _ _ three_pages_all]
  by (simp add: three_pages_served cap_reached_def slice_to_def)

text \<open>
  C9. With \<^verbatim>\<open>max_records = 0\<close> the extractor does what it does without a cap, on every
  source; so on a source serving a page sequence with a short last page it returns all
  the records of the pages received, not the empty list.
\<close>

theorem cap_zero_is_no_cap:
  "fetch_all_brfss_data http filters (Some 0) = fetch_all_brfss_data http filters None
   \<and> (ps \<noteq> [] \<and> length (last ps) < 10000
        \<and> (\<forall>k<length ps. fetch_brfss_data http 10000 (k * 10000) filters = Inr (ps ! k))
      \<longrightarrow> fetch_all_brfss_data http filters (Some 0) =
            Some (Inr (concat (pages_received 10000 ps))))"
proof (intro conjI impI)
  show eq: "fetch_all_brfss_data http filters (Some 0) = fetch_all_brfss_data http filters None"
    by (simp add: fetch_all_brfss_data_def fetch_loop_zero_eq_None)
  assume a: "ps \<noteq> [] \<and> length (last ps) < 10000
        \<and> (\<forall>k<length ps. fetch_brfss_data http 10000 (k * 10000) filters = Inr (ps ! k))"
  have "fetch_loop http filters None 10000 [] 0 =
          Some (Inr ([] @ concat (pages_received 10000 ps)))"
    using a by (intro fetch_loop_pages) simp_all
  then show "fetch_all_brfss_data http filters (Some 0) =
            Some (Inr (concat (pages_received 10000 ps)))"
    by (simp add: eq) (simp add: fetch_all_brfss_data_def)
qed

theorem cap_zero_is_no_cap_witness:
  "fetch_all_brfss_data (one_page [[(''year'', Str ''2020'')], [(''year'', Str ''2021'')]])
       None (Some 0) =
     Some (Inr [[(''year'', Str ''2020'')], [(''year'', Str ''2021'')]])
   \<and> fetch_all_brfss_data (one_page [[(''year'', Str ''2020'')], [(''year'', Str ''2021'')]])
       None None =
     Some (Inr [[(''year'', Str ''2020'')], [(''year'', Str ''2021'')]])"
  using cap_zero_is_no_cap [of
     "one_page [[(''year'', Str ''2020'')], [(''year'', Str ''2021'')]]" None
     "[[[(''year'', Str ''2020'')], [(''year'', Str ''2021'')]]]"]
  by (auto simp: one_page_served)

section \<open>Properties of the validation gate\<close>

lemma str_nat_100: "str_nat 100 = ''100''"
  by code_simp

lemma validate_row_count_fails:
  "len df < MIN_ROW_COUNT \<Longrightarrow>
     validate_row_count df = ([], Inl (ValidationError
       (''Row count validation failed: '' @ str_nat (len df) @ '' rows (minimum required: 100)'')))"
  by (simp add: validate_row_count_def MIN_ROW_COUNT_def str_nat_100)

lemma validate_row_count_passes:
  "MIN_ROW_COUNT \<le> len df \<Longrightarrow> validate_row_count df = ([], Inr ())"
  by (simp add: validate_row_count_def)

lemma validate_schema_no_columns:
  "columns df = [] \<Longrightarrow> snd (validate_schema df) =
      Inl (ValidationError ''Schema validation failed: DataFrame has no columns'')"
  by (simp add: validate_schema_def Let_def)

lemma validate_schema_passes:
  "columns df \<noteq> [] \<Longrightarrow> validate_schema df =
     (if missing_columns df \<noteq> [] then [(WARNING, MissingColumns (sort (missing_columns df)))] else [],
      Inr ())"
  by (simp add: validate_schema_def Let_def)

lemma set_missing_columns:
  "set (missing_columns df) = set EXPECTED_COLUMNS - set (columns df)"
  by (auto simp: missing_columns_def)

lemma distinct_count_list_le: "distinct xs \<Longrightarrow> count_list xs c \<le> 1"
  by (induction xs) (auto simp: count_list_0_iff)

lemma null_loop_ok:
  assumes "0 < len df" and "\<forall>c\<in>set cs. count_list (columns df) c \<le> 1"
  shows "null_loop df cs report critical =
     Inr (report @ map (\<lambda>c. \<lparr>column = c, null_count = null_count_of df c,
             null_percentage = np_round2 (null_percentage_of df c)\<rparr>) cs,
          critical @ map (\<lambda>c. (c, of_nat (null_count_of df c) / of_nat (len df) * 100))
             (filter (\<lambda>c. MAX_NULL_PERCENTAGE < of_nat (null_count_of df c) / of_nat (len df) * 100) cs))"
  using assms
proof (induction cs arbitrary: report critical)
  case Nil
  then show ?case by simp
next
  case (Cons c cs)
  then show ?case by (simp add: Let_def)
qed

lemma validate_null_checks_ok:
  assumes "0 < len df" and "columns df \<noteq> []" and "distinct (columns df)"
  shows "validate_null_checks df =
     ([(INFO, NullReport (sort_values_desc
          (map (\<lambda>c. \<lparr>column = c, null_count = null_count_of df c,
             null_percentage = np_round2 (null_percentage_of df c)\<rparr>)
             (columns df))))] @
      (if filter (\<lambda>c. MAX_NULL_PERCENTAGE < of_nat (null_count_of df c) / of_nat (len df) * 100)
            (columns df) \<noteq> []
       then [(WARNING, HighNulls
          (map (\<lambda>c. (c, of_nat (null_count_of df c) / of_nat (len df) * 100))
             (filter (\<lambda>c. MAX_NULL_PERCENTAGE < of_nat (null_count_of df c) / of_nat (len df) * 100)
               (columns df))))]
       else []),
      Inr ())"
proof -
  have "\<forall>c\<in>set (columns df). count_list (columns df) c \<le> 1"
    using assms(3) by (blast intro: distinct_count_list_le)
  from null_loop_ok [OF assms(1) this, of "[]" "[]"] assms(2)
  show ?thesis by (simp add: validate_null_checks_def)
qed

lemma validate_data_passes:
  assumes "MIN_ROW_COUNT \<le> len df" and "columns df \<noteq> []" and "distinct (columns df)"
  shows "validate_data df =
     ((if missing_columns df \<noteq> [] then [(WARNING, MissingColumns (sort (missing_columns df)))]
       else []) @
      [(INFO, NullReport (sort_values_desc
          (map (\<lambda>c. \<lparr>column = c, null_count = null_count_of df c,
             null_percentage = np_round2 (null_percentage_of df c)\<rparr>)
             (columns df))))] @
      (if filter (\<lambda>c. MAX_NULL_PERCENTAGE < of_nat (null_count_of df c) / of_nat (len df) * 100)
            (columns df) \<noteq> []
       then [(WARNING, HighNulls
          (map (\<lambda>c. (c, of_nat (null_count_of df c) / of_nat (len df) * 100))
             (filter (\<lambda>c. MAX_NULL_PERCENTAGE < of_nat (null_count_of df c) / of_nat (len df) * 100)
               (columns df))))]
       else []),
      Inr (True, []))"
proof -
  have "0 < len df" using assms(1) by (simp add: MIN_ROW_COUNT_def)
  from validate_null_checks_ok [OF this assms(2,3)]
  show ?thesis
    by (simp add: validate_data_def run_checks_def validate_row_count_passes [OF assms(1)]
        validate_schema_passes [OF assms(2)])
qed

lemma validate_data_row_count:
  assumes "len df < MIN_ROW_COUNT"
  shows "validate_data df =
    ([(ERROR, ValidationFailed
        (''Row count validation failed: '' @ str_nat (len df) @ '' rows (minimum required: 100)''))],
     Inr (False,
       [''Row count validation failed: '' @ str_nat (len df) @ '' rows (minimum required: 100)'']))"
  by (simp add: validate_data_def run_checks_def validate_row_count_fails [OF assms])

lemma validate_data_no_columns:
  assumes "MIN_ROW_COUNT \<le> len df" and "columns df = []"
  shows "\<exists>lg. validate_data df =
     (lg, Inr (False, [''Schema validation failed: DataFrame has no columns'']))"
  using assms(2)
  by (simp add: validate_data_def run_checks_def validate_row_count_passes [OF assms(1)]
      validate_schema_def Let_def)

lemma str_nat_50: "str_nat 50 = ''50''"
  by code_simp

text \<open>
  C3. A table with fewer than \<open>MIN_ROW_COUNT = 100\<close> rows fails validation: the report is
  \<open>passed = False\<close> with the one message that names the row count and the required
  minimum. Nothing else is logged but this failure, so the schema and null checks were
  not run; and the driver given such data exits with status 1 and leaves the session as
  it was.
\<close>

theorem row_count_hard_failure:
  assumes "len df < MIN_ROW_COUNT"
  shows "validate_data df =
           ([(ERROR, ValidationFailed
               (''Row count validation failed: '' @ str_nat (len df) @
                '' rows (minimum required: 100)''))],
            Inr (False,
              [''Row count validation failed: '' @ str_nat (len df) @
               '' rows (minimum required: 100)'']))
         \<and> (df = DataFrame_of data \<and> data \<noteq> [] \<longrightarrow>
              main_with_data cl data s =
                \<lparr>exit_code = 1,
                 logged = [(ERROR, ValidationFailed
                             (''Row count validation failed: '' @ str_nat (len df) @
                              '' rows (minimum required: 100)'')),
                           (ERROR, ValidationExit)],
                 session = s\<rparr>)"
proof (intro conjI impI)
  show "validate_data df =
           ([(ERROR, ValidationFailed
               (''Row count validation failed: '' @ str_nat (len df) @
                '' rows (minimum required: 100)''))],
            Inr (False,
              [''Row count validation failed: '' @ str_nat (len df) @
               '' rows (minimum required: 100)'']))"
    by (rule validate_data_row_count [OF assms])
next
  assume d: "df = DataFrame_of data \<and> data \<noteq> []"
  then have "validate_data (DataFrame_of data) =
           ([(ERROR, ValidationFailed
               (''Row count validation failed: '' @ str_nat (len df) @
                '' rows (minimum required: 100)''))],
            Inr (False,
              [''Row count validation failed: '' @ str_nat (len df) @
               '' rows (minimum required: 100)'']))"
    using validate_data_row_count [OF assms] by simp
  with d show "main_with_data cl data s =
                \<lparr>exit_code = 1,
                 logged = [(ERROR, ValidationFailed
                             (''Row count validation failed: '' @ str_nat (len df) @
                              '' rows (minimum required: 100)'')),
                           (ERROR, ValidationExit)],
                 session = s\<rparr>"
    by (simp add: main_with_data_def)
qed

theorem row_count_hard_failure_witness:
  "len (DataFrame_of small_data) < MIN_ROW_COUNT
   \<and> validate_data (DataFrame_of small_data) =
       ([(ERROR, ValidationFailed ''Row count validation failed: 50 rows (minimum required: 100)'')],
        Inr (False, [''Row count validation failed: 50 rows (minimum required: 100)'']))
   \<and> main_with_data ok_client small_data \<lparr>world = 0, calls = []\<rparr> =
       \<lparr>exit_code = 1,
        logged = [(ERROR, ValidationFailed
                    ''Row count validation failed: 50 rows (minimum required: 100)''),
                  (ERROR, ValidationExit)],
        session = \<lparr>world = 0, calls = []\<rparr>\<rparr>"
proof -
  have l: "len (DataFrame_of small_data) = 50"
    by (simp add: len_def DataFrame_of_def small_data_def)
  have ne: "small_data \<noteq> []"
    by (simp add: small_data_def)
  have h: "len (DataFrame_of small_data) < MIN_ROW_COUNT"
    by (simp add: l MIN_ROW_COUNT_def)
  show ?thesis
    using h ne row_count_hard_failure [OF h, of small_data ok_client "\<lparr>world = 0, calls = []\<rparr>"]
    by (simp add: l str_nat_50)
qed

text \<open>
  C2. The claim: a table with at least one column that misses expected columns passes,
  and the returned list of warnings holds a warning naming the missing columns. On the
  table of 100 rows with the column \<^verbatim>\<open>year\<close> only, the warning with the seven missing
  columns is logged, the table passes, and the returned list of warnings is empty.
\<close>

theorem validate_data_returns_no_warnings:
  "validate_data year_only_frame =
     ([(WARNING, MissingColumns [''class'', ''data_value'', ''locationabbr'', ''locationdesc'',
          ''question'', ''sample_size'', ''topic'']),
       (INFO, NullReport
          [\<lparr>column = ''year'', null_count = 0, null_percentage = Finite 0\<rparr>])],
      Inr (True, []))"
proof -
  have l: "len year_only_frame = 100"
    by (simp add: len_def year_only_frame_def)
  have c: "columns year_only_frame = [''year'']"
    by (simp add: year_only_frame_def)
  have n: "null_count_of year_only_frame ''year'' = 0"
    by (simp add: null_count_of_def year_only_frame_def isna_def)
  have m: "missing_columns year_only_frame = [''locationabbr'', ''locationdesc'', ''class'',
      ''topic'', ''question'', ''data_value'', ''sample_size'']"
    by (simp add: missing_columns_def EXPECTED_COLUMNS_def c)
  have r: "np_round2 (null_percentage_of year_only_frame ''year'') = Finite 0"
    by (simp add: np_round2_def null_percentage_of_def nearest_double_def round_half_even_def
        l n)
  have "validate_data year_only_frame = 
     ((if missing_columns year_only_frame \<noteq> [] then [(WARNING, MissingColumns (sort (missing_columns year_only_frame)))]
       else []) @
      [(INFO, NullReport (sort_values_desc
          (map (\<lambda>c. \<lparr>column = c, null_count = null_count_of year_only_frame c,
             null_percentage = np_round2 (null_percentage_of year_only_frame c)\<rparr>)
             (columns year_only_frame))))] @
      (if filter (\<lambda>c. MAX_NULL_PERCENTAGE < of_nat (null_count_of year_only_frame c) / of_nat (len year_only_frame) * 100)
            (columns year_only_frame) \<noteq> []
       then [(WARNING, HighNulls
          (map (\<lambda>c. (c, of_nat (null_count_of year_only_frame c) / of_nat (len year_only_frame) * 100))
             (filter (\<lambda>c. MAX_NULL_PERCENTAGE < of_nat (null_count_of year_only_frame c) / of_nat (len year_only_frame) * 100)
               (columns year_only_frame))))]
       else []),
      Inr (True, []))"
    by (rule validate_data_passes) (simp_all add: l c MIN_ROW_COUNT_def)
  then show ?thesis
    by (simp add: l c n m r MAX_NULL_PERCENTAGE_def sort_values_desc_def)
qed

lemma null_count_le_len: "null_count_of df c \<le> len df"
  by (simp add: null_count_of_def len_def)

lemma mset_sort_values_desc: "mset (sort_values_desc rs) = mset rs"
  by (simp add: sort_values_desc_def)

lemma sort_values_desc_no_nan:
  assumes "\<forall>r\<in>set rs. null_percentage r \<noteq> NaN"
  shows "sort_values_desc rs = rev (sort_key (\<lambda>r. finite_value (null_percentage r)) (rev rs))"
proof -
  have "filter (\<lambda>r. null_percentage r \<noteq> NaN) rs = rs"
    "filter (\<lambda>r. null_percentage r = NaN) rs = []"
    using assms by (simp_all add: filter_empty_conv)
  then show ?thesis by (simp add: sort_values_desc_def)
qed

lemma sorted_sort_values_desc:
  assumes "\<forall>r\<in>set rs. null_percentage r \<noteq> NaN"
  shows "sorted_wrt (\<lambda>a b. finite_value (null_percentage b) \<le> finite_value (null_percentage a))
           (sort_values_desc rs)"
proof -
  let ?k = "\<lambda>r. finite_value (null_percentage r)"
  have "sorted (map ?k (sort_key ?k (rev rs)))"
    by (rule sorted_sort_key)
  then have "sorted_wrt (\<lambda>a b. ?k a \<le> ?k b) (sort_key ?k (rev rs))"
    by (simp add: sorted_map)
  then show ?thesis
    by (simp add: sort_values_desc_no_nan [OF assms] sorted_wrt_rev)
qed

lemma np_round2_percentage_finite:
  "0 < len df \<Longrightarrow>
     np_round2 (null_percentage_of df c) =
       Finite (nearest_double (of_int (round_half_even (nearest_double
         (nearest_double (nearest_double (nearest_double (of_nat (null_count_of df c)) /
            nearest_double (of_nat (len df))) * 100) * 100))) / 100))"
  by (simp add: np_round2_def null_percentage_of_def)

text \<open>
  C6. For a table with at least one row and one column (the labels distinct), the null
  check logs a report that holds exactly one row for each column of the table, with the
  column's label, its null count and its percentage: the double
  \<open>(null_count / len) * 100\<close> rounded to two decimals by the library, which is the double
  nearest to some multiple of 1/100. The rows are in descending order of the percentage,
  none of which is \<^verbatim>\<open>nan\<close>, and no null count exceeds the row count.
\<close>

theorem null_report_rows:
  assumes "0 < len df" and "columns df \<noteq> []" and "distinct (columns df)"
  shows "\<exists>report rest.
           validate_null_checks df = ((INFO, NullReport report) # rest, Inr ())
         \<and> mset report =
             mset (map (\<lambda>c. \<lparr>column = c, null_count = null_count_of df c,
                              null_percentage = np_round2 (Finite (nearest_double
                                (nearest_double (nearest_double (of_nat (null_count_of df c)) /
                                   nearest_double (of_nat (len df))) * 100)))\<rparr>)
                    (columns df))
         \<and> mset (map column report) = mset (columns df)
         \<and> sorted_wrt (\<lambda>a b. finite_value (null_percentage b) \<le> finite_value (null_percentage a))
               report
         \<and> (\<forall>r\<in>set report. null_count r \<le> len df
               \<and> null_percentage r \<noteq> NaN
               \<and> (\<exists>k. null_percentage r = Finite (nearest_double (of_int k / 100))))"
proof -
  let ?row = "\<lambda>c. \<lparr>column = c, null_count = null_count_of df c,
                      null_percentage = np_round2 (null_percentage_of df c)\<rparr>"
  let ?report = "sort_values_desc (map ?row (columns df))"
  have p: "null_percentage_of df c = Finite (nearest_double
      (nearest_double (nearest_double (of_nat (null_count_of df c)) /
         nearest_double (of_nat (len df))) * 100))" for c
    using assms(1) by (simp add: null_percentage_of_def)
  have m: "mset ?report = mset (map ?row (columns df))"
    by (rule mset_sort_values_desc)
  have "mset (map column ?report) = image_mset column (mset (map ?row (columns df)))"
    by (simp only: mset_map m)
  also have "\<dots> = mset (columns df)"
    by (simp add: image_mset.compositionality comp_def)
  finally have mc: "mset (map column ?report) = mset (columns df)" .
  have s: "set ?report = set (map ?row (columns df))"
    using m by (rule mset_eq_setD)
  have rows: "\<forall>r\<in>set ?report. null_count r \<le> len df
               \<and> null_percentage r \<noteq> NaN
               \<and> (\<exists>k. null_percentage r = Finite (nearest_double (of_int k / 100)))"
  proof
    fix r assume "r \<in> set ?report"
    with s obtain c where r: "r = ?row c" by auto
    have "\<exists>k. np_round2 (null_percentage_of df c) = Finite (nearest_double (of_int k / 100))"
      unfolding np_round2_percentage_finite [OF assms(1)] by blast
    then show "null_count r \<le> len df
               \<and> null_percentage r \<noteq> NaN
               \<and> (\<exists>k. null_percentage r = Finite (nearest_double (of_int k / 100)))"
      by (auto simp: r null_count_le_len)
  qed
  have nonan: "\<forall>r\<in>set (map ?row (columns df)). null_percentage r \<noteq> NaN"
    using rows s by blast
  show ?thesis
    using validate_null_checks_ok [OF assms] m mc rows sorted_sort_values_desc [OF nonan]
    by (intro exI [of _ ?report]) (auto simp: p)
qed

lemma double_examples:
  "nearest_double (1437 / 100) = 8089590830664253 / 562949953421312"
  "nearest_double (3063 / 100) = 8621578536647393 / 281474976710656"
  by code_simp+

lemma rounding_frame_facts:
  "len rounding_frame = 160"
  "columns rounding_frame = [''year'', ''topic'']"
  "null_count_of rounding_frame ''year'' = 23"
  "null_count_of rounding_frame ''topic'' = 49"
  by (simp_all add: len_def null_count_of_def rounding_frame_def isna_def)

lemma rounding_frame_percentages:
  "np_round2 (null_percentage_of rounding_frame ''year'') = Finite (nearest_double (1437 / 100))"
  "np_round2 (null_percentage_of rounding_frame ''topic'') = Finite (nearest_double (3063 / 100))"
  unfolding null_percentage_of_def rounding_frame_facts by code_simp+

text \<open>
  23 and 49 nulls in 160 rows: the doubles are just below 14.375 and just above 30.625,
  and the report holds 30.63 and 14.37, in this order.
\<close>

theorem null_report_rows_witness:
  "0 < len rounding_frame \<and> columns rounding_frame \<noteq> []
   \<and> distinct (columns rounding_frame)
   \<and> validate_null_checks rounding_frame =
       ([(INFO, NullReport
           [\<lparr>column = ''topic'', null_count = 49,
              null_percentage = Finite (nearest_double (3063 / 100))\<rparr>,
            \<lparr>column = ''year'', null_count = 23,
              null_percentage = Finite (nearest_double (1437 / 100))\<rparr>])],
        Inr ())
   \<and> (\<exists>report rest.
         validate_null_checks rounding_frame = ((INFO, NullReport report) # rest, Inr ())
       \<and> mset (map column report) = mset (columns rounding_frame)
       \<and> sorted_wrt (\<lambda>a b. finite_value (null_percentage b) \<le> finite_value (null_percentage a))
             report)"
proof -
  have h: "0 < len rounding_frame" "columns rounding_frame \<noteq> []"
    "distinct (columns rounding_frame)"
    by (simp_all add: rounding_frame_facts)
  have v: "validate_null_checks rounding_frame =
       ([(INFO, NullReport
           [\<lparr>column = ''topic'', null_count = 49,
              null_percentage = Finite (nearest_double (3063 / 100))\<rparr>,
            \<lparr>column = ''year'', null_count = 23,
              null_percentage = Finite (nearest_double (1437 / 100))\<rparr>])],
        Inr ())"
    by (simp add: validate_null_checks_ok [OF h] rounding_frame_facts rounding_frame_percentages
        sort_values_desc_def finite_value_def double_examples MAX_NULL_PERCENTAGE_def)
  from null_report_rows [OF h] obtain report rest where
    "validate_null_checks rounding_frame = ((INFO, NullReport report) # rest, Inr ())"
    "mset (map column report) = mset (columns rounding_frame)"
    "sorted_wrt (\<lambda>a b. finite_value (null_percentage b) \<le> finite_value (null_percentage a))
       report"
    by blast
  then have e: "\<exists>report rest.
         validate_null_checks rounding_frame = ((INFO, NullReport report) # rest, Inr ())
       \<and> mset (map column report) = mset (columns rounding_frame)
       \<and> sorted_wrt (\<lambda>a b. finite_value (null_percentage b) \<le> finite_value (null_percentage a))
             report"
    by blast
  show ?thesis
    by (intro conjI h v e)
qed

lemma np_round2_not_nan: "np_round2 x \<noteq> NaN \<longleftrightarrow> x \<noteq> NaN"
  by (simp add: np_round2_def split: npfloat.splits)

lemma null_percentage_of_nan: "null_percentage_of df c = NaN \<longleftrightarrow> len df = 0"
  by (simp add: null_percentage_of_def)

text \<open>With at least one row, no row of the report holds \<^verbatim>\<open>nan\<close>.\<close>

lemma null_loop_no_nan:
  assumes "0 < len df" and "null_loop df cs report critical = Inr (report', critical')"
    and "\<forall>r\<in>set report. null_percentage r \<noteq> NaN"
  shows "\<forall>r\<in>set report'. null_percentage r \<noteq> NaN"
  using assms(2,3)
proof (induction cs arbitrary: report critical)
  case Nil
  then show ?case by simp
next
  case (Cons c cs)
  let ?row = "\<lparr>column = c, null_count = null_count_of df c,
                null_percentage = np_round2 (null_percentage_of df c)\<rparr>"
  from Cons.prems(1) obtain critical0 where
    run: "null_loop df cs (report @ [?row]) critical0 = Inr (report', critical')"
    by (simp add: Let_def split: if_splits)
  have "null_percentage ?row \<noteq> NaN"
    using assms(1) by (simp add: np_round2_not_nan null_percentage_of_nan)
  with Cons.prems(2) have "\<forall>r\<in>set (report @ [?row]). null_percentage r \<noteq> NaN"
    by auto
  from Cons.IH [OF run this] show ?case .
qed

lemma set_sort_values_desc: "set (sort_values_desc rs) = set rs"
  by (auto simp: sort_values_desc_def)

lemma validate_null_checks_no_nan:
  assumes "0 < len df" and "(INFO, NullReport report) \<in> set (fst (validate_null_checks df))"
  shows "\<forall>r\<in>set report. null_percentage r \<noteq> NaN"
proof (cases "null_loop df (columns df) [] []")
  case (Inl e)
  with assms(2) show ?thesis by (simp add: validate_null_checks_def)
next
  case (Inr res)
  obtain report' critical' where res: "res = (report', critical')" by (cases res)
  from assms(2) have "report = sort_values_desc report'"
    by (auto simp: validate_null_checks_def Inr res split: if_splits)
  moreover have "\<forall>r\<in>set report'. null_percentage r \<noteq> NaN"
    using null_loop_no_nan [OF assms(1) Inr [unfolded res]] by simp
  ultimately show ?thesis by (simp add: set_sort_values_desc)
qed

lemma validate_data_log:
  assumes "(INFO, NullReport report) \<in> set (fst (validate_data df))"
  shows "MIN_ROW_COUNT \<le> len df
         \<and> (INFO, NullReport report) \<in> set (fst (validate_null_checks df))"
proof (cases "len df < MIN_ROW_COUNT")
  case True
  with assms show ?thesis by (simp add: validate_data_row_count)
next
  case False
  then have rc: "validate_row_count df = ([], Inr ())"
    by (simp add: validate_row_count_passes)
  obtain l2 r2 where vs: "validate_schema df = (l2, r2)" by (cases "validate_schema df")
  have l2: "(INFO, NullReport report) \<notin> set l2"
    using vs by (auto simp: validate_schema_def Let_def split: if_splits)
  obtain l3 r3 where vn: "validate_null_checks df = (l3, r3)"
    by (cases "validate_null_checks df")
  have "(INFO, NullReport report) \<in> set l3"
    using assms l2
    by (cases r2; cases r3)
       (auto simp: validate_data_def run_checks_def rc vs vn split: exn.splits)
  with False vn show ?thesis by simp
qed

lemma null_loop_no_rows:
  assumes "len df = 0" and "\<forall>c\<in>set cs. count_list (columns df) c \<le> 1"
  shows "null_loop df cs report critical =
     Inr (report @ map (\<lambda>c. \<lparr>column = c, null_count = 0, null_percentage = NaN\<rparr>) cs, critical)"
  using assms(2)
proof (induction cs arbitrary: report)
  case Nil
  then show ?case by simp
next
  case (Cons c cs)
  have "null_count_of df c = 0"
    using assms(1) by (simp add: null_count_of_def len_def)
  with Cons assms(1) show ?case
    by (simp add: Let_def null_percentage_of_def np_round2_def)
qed

lemma validate_null_checks_no_rows:
  assumes "len df = 0" and "columns df \<noteq> []" and "distinct (columns df)"
  shows "validate_null_checks df =
     ([(INFO, NullReport
         (map (\<lambda>c. \<lparr>column = c, null_count = 0, null_percentage = NaN\<rparr>) (columns df)))],
      Inr ())"
proof -
  have "\<forall>c\<in>set (columns df). count_list (columns df) c \<le> 1"
    using assms(3) by (blast intro: distinct_count_list_le)
  from null_loop_no_rows [OF assms(1) this, of "[]" "[]"] assms(2)
  show ?thesis
    by (simp add: validate_null_checks_def sort_values_desc_def filter_map comp_def)
qed

text \<open>
  C10. The row count check comes first in \<^verbatim>\<open>validate_data\<close>: below
  \<open>MIN_ROW_COUNT = 100\<close> rows it raises and the checks end there, and where it passes the
  table has at least 100 rows, so more than none. Hence a null report that
  \<^verbatim>\<open>validate_data\<close> logs comes from a table of at least 100 rows and holds no
  \<^verbatim>\<open>nan\<close>: no percentage in it is a quotient by zero. (Called on its own with a table
  that has columns and no row, the null check divides by zero: it logs a report of
  \<^verbatim>\<open>nan\<close> and returns.)
\<close>

theorem null_density_division_guarded:
  "MIN_ROW_COUNT = 100
   \<and> (len df1 < MIN_ROW_COUNT \<longrightarrow>
        run_checks df1 = validate_row_count df1
        \<and> (\<exists>msg. snd (validate_row_count df1) = Inl (ValidationError msg)))
   \<and> (snd (validate_row_count df2) = Inr () \<longrightarrow> 100 \<le> len df2 \<and> 0 < len df2)
   \<and> ((INFO, NullReport report) \<in> set (fst (validate_data df)) \<longrightarrow>
        100 \<le> len df \<and> (\<forall>r\<in>set report. null_percentage r \<noteq> NaN))
   \<and> (len df3 = 0 \<and> columns df3 \<noteq> [] \<and> distinct (columns df3) \<longrightarrow>
        validate_null_checks df3 =
          ([(INFO, NullReport
              (map (\<lambda>c. \<lparr>column = c, null_count = 0, null_percentage = NaN\<rparr>) (columns df3)))],
           Inr ()))"
proof (intro conjI impI)
  show "MIN_ROW_COUNT = 100" by (simp add: MIN_ROW_COUNT_def)
next
  assume a: "len df1 < MIN_ROW_COUNT"
  show "run_checks df1 = validate_row_count df1"
    by (simp add: run_checks_def validate_row_count_fails [OF a])
  show "\<exists>msg. snd (validate_row_count df1) = Inl (ValidationError msg)"
    by (simp add: validate_row_count_fails [OF a])
next
  assume a: "snd (validate_row_count df2) = Inr ()"
  then show "100 \<le> len df2" "0 < len df2"
    by (auto simp: validate_row_count_def MIN_ROW_COUNT_def Let_def split: if_splits)
next
  assume a: "(INFO, NullReport report) \<in> set (fst (validate_data df))"
  from validate_data_log [OF a] show l: "100 \<le> len df"
    by (simp add: MIN_ROW_COUNT_def)
  then have "0 < len df" by simp
  from validate_null_checks_no_nan [OF this] validate_data_log [OF a]
  show "\<forall>r\<in>set report. null_percentage r \<noteq> NaN" by blast
next
  assume "len df3 = 0 \<and> columns df3 \<noteq> [] \<and> distinct (columns df3)"
  then show "validate_null_checks df3 =
          ([(INFO, NullReport
              (map (\<lambda>c. \<lparr>column = c, null_count = 0, null_percentage = NaN\<rparr>) (columns df3)))],
           Inr ())"
    by (intro validate_null_checks_no_rows) simp_all
qed

lemma validate_data_rounding_frame:
  "(INFO, NullReport
      [\<lparr>column = ''topic'', null_count = 49,
         null_percentage = Finite (nearest_double (3063 / 100))\<rparr>,
       \<lparr>column = ''year'', null_count = 23,
         null_percentage = Finite (nearest_double (1437 / 100))\<rparr>])
     \<in> set (fst (validate_data rounding_frame))"
proof -
  have h: "MIN_ROW_COUNT \<le> len rounding_frame" "columns rounding_frame \<noteq> []"
    "distinct (columns rounding_frame)"
    by (simp_all add: rounding_frame_facts MIN_ROW_COUNT_def)
  show ?thesis
    by (simp add: validate_data_passes [OF h] rounding_frame_facts rounding_frame_percentages
        sort_values_desc_def finite_value_def double_examples)
qed

theorem null_density_division_guarded_witness:
  "len (DataFrame_of small_data) < MIN_ROW_COUNT
   \<and> run_checks (DataFrame_of small_data) = validate_row_count (DataFrame_of small_data)
   \<and> snd (validate_row_count year_only_frame) = Inr ()
   \<and> 100 \<le> len year_only_frame
   \<and> (INFO, NullReport
         [\<lparr>column = ''topic'', null_count = 49,
            null_percentage = Finite (nearest_double (3063 / 100))\<rparr>,
          \<lparr>column = ''year'', null_count = 23,
            null_percentage = Finite (nearest_double (1437 / 100))\<rparr>])
        \<in> set (fst (validate_data rounding_frame))
   \<and> 100 \<le> len rounding_frame
   \<and> len empty_frame = 0 \<and> columns empty_frame \<noteq> [] \<and> distinct (columns empty_frame)
   \<and> validate_null_checks empty_frame =
       ([(INFO, NullReport [\<lparr>column = ''year'', null_count = 0, null_percentage = NaN\<rparr>])],
        Inr ())"
proof -
  have 1: "len (DataFrame_of small_data) < MIN_ROW_COUNT"
    by (simp add: len_def DataFrame_of_def small_data_def MIN_ROW_COUNT_def)
  have 2: "snd (validate_row_count year_only_frame) = Inr ()"
    by (simp add: validate_row_count_def len_def year_only_frame_def MIN_ROW_COUNT_def)
  have 3: "len empty_frame = 0 \<and> columns empty_frame \<noteq> [] \<and> distinct (columns empty_frame)"
    by (simp add: len_def empty_frame_def)
  have c: "columns empty_frame = [''year'']"
    by (simp add: empty_frame_def)
  show ?thesis
    using 1 2 3 validate_data_rounding_frame
      null_density_division_guarded [of "DataFrame_of small_data" year_only_frame
        "[\<lparr>column = ''topic'', null_count = 49,
            null_percentage = Finite (nearest_double (3063 / 100))\<rparr>,
          \<lparr>column = ''year'', null_count = 23,
            null_percentage = Finite (nearest_double (1437 / 100))\<rparr>]"
        rounding_frame empty_frame]
    by (simp add: c)
qed

subsection \<open>The threshold test on doubles\<close>

text \<open>
  Rounding to the nearest double is monotone and leaves the natural numbers below
  \<open>2 ^ 53\<close> as they are. Hence the percentage computed on doubles is above the
  threshold exactly when the exact quotient of the counts is.
\<close>

lemma round_half_even_close: "\<bar>of_int (round_half_even x) - x\<bar> \<le> 1 / 2"
proof -
  have "of_int \<lfloor>x\<rfloor> \<le> x" "x < of_int \<lfloor>x\<rfloor> + 1"
    by linarith+
  then show ?thesis
    by (auto simp: round_half_even_def Let_def)
qed

lemma round_half_even_of_int: "round_half_even (of_int k) = k"
  by (simp add: round_half_even_def)

lemma round_half_even_mono:
  assumes "x \<le> y"
  shows "round_half_even x \<le> round_half_even y"
proof (cases "x = y")
  case True
  then show ?thesis by simp
next
  case False
  with assms have "x < y" by simp
  moreover have "of_int (round_half_even x) - 1 / 2 \<le> x"
    using round_half_even_close [of x] by linarith
  moreover have "y \<le> of_int (round_half_even y) + 1 / 2"
    using round_half_even_close [of y] by linarith
  ultimately have "(of_int (round_half_even x) :: rat) < of_int (round_half_even y + 1)"
    by simp
  then have "round_half_even x < round_half_even y + 1"
    by (simp only: of_int_less_iff)
  then show ?thesis by simp
qed

lemma exponent_of_bounds:
  assumes "0 < x"
  shows "2 powi exponent_of x \<le> x" and "x < 2 powi (exponent_of x + 1)"
proof -
  obtain a b where q: "quotient_of x = (a, b)" by (cases "quotient_of x")
  have b: "0 < b" by (rule quotient_of_denom_pos [OF q])
  have x: "x = of_int a / of_int b" by (rule quotient_of_div [OF q])
  have a: "0 < a" using assms x b by (simp add: zero_less_divide_iff)
  let ?la = "bitlen a" and ?lb = "bitlen b"
  from bitlen_bounds [OF a] have a1: "2 ^ nat (?la - 1) \<le> a" "a < 2 ^ nat ?la" by auto
  from bitlen_bounds [OF b] have b1: "2 ^ nat (?lb - 1) \<le> b" "b < 2 ^ nat ?lb" by auto
  have la: "1 \<le> ?la"
  proof (rule ccontr)
    assume "\<not> 1 \<le> ?la"
    then have "nat ?la = 0" by simp
    with a1(2) a show False by simp
  qed
  have lb: "1 \<le> ?lb"
  proof (rule ccontr)
    assume "\<not> 1 \<le> ?lb"
    then have "nat ?lb = 0" by simp
    with b1(2) b show False by simp
  qed
  have ra: "(2::rat) powi (?la - 1) \<le> of_int a" "of_int a < (2::rat) powi ?la"
  proof -
    have "(2::rat) powi (?la - 1) = of_int (2 ^ nat (?la - 1))"
      using la by (simp add: power_int_nonneg_exp)
    also have "\<dots> \<le> of_int a" using a1(1) by (simp only: of_int_le_iff)
    finally show "(2::rat) powi (?la - 1) \<le> of_int a" .
    have "(of_int a :: rat) < of_int (2 ^ nat ?la)" using a1(2) by (simp only: of_int_less_iff)
    also have "\<dots> = 2 powi ?la" using la by (simp add: power_int_nonneg_exp)
    finally show "of_int a < (2::rat) powi ?la" .
  qed
  have rb: "(2::rat) powi (?lb - 1) \<le> of_int b" "of_int b < (2::rat) powi ?lb"
  proof -
    have "(2::rat) powi (?lb - 1) = of_int (2 ^ nat (?lb - 1))"
      using lb by (simp add: power_int_nonneg_exp)
    also have "\<dots> \<le> of_int b" using b1(1) by (simp only: of_int_le_iff)
    finally show "(2::rat) powi (?lb - 1) \<le> of_int b" .
    have "(of_int b :: rat) < of_int (2 ^ nat ?lb)" using b1(2) by (simp only: of_int_less_iff)
    also have "\<dots> = 2 powi ?lb" using lb by (simp add: power_int_nonneg_exp)
    finally show "of_int b < (2::rat) powi ?lb" .
  qed
  have pa: "(0::rat) < of_int a" and pb: "(0::rat) < of_int b" using a b by simp_all
  have upper: "x < 2 powi (?la - ?lb + 1)"
  proof -
    have "x < 2 powi ?la / of_int b"
      unfolding x using ra(2) pb by (simp add: divide_strict_right_mono)
    also have "\<dots> \<le> 2 powi ?la / 2 powi (?lb - 1)"
      using rb(1) b by (intro divide_left_mono mult_pos_pos) simp_all
    also have "\<dots> = 2 powi (?la - (?lb - 1))"
      by (simp add: power_int_diff)
    finally show ?thesis by (simp add: algebra_simps)
  qed
  have lower: "2 powi (?la - ?lb - 1) < x"
  proof -
    have "(2::rat) powi (?la - ?lb - 1) = 2 powi ((?la - 1) - ?lb)" by (simp add: algebra_simps)
    also have "\<dots> = 2 powi (?la - 1) / 2 powi ?lb" by (simp add: power_int_diff)
    also have "\<dots> \<le> of_int a / 2 powi ?lb"
      using ra(1) by (simp add: divide_right_mono)
    also have "\<dots> < of_int a / of_int b"
      using rb(2) pa pb by (intro divide_strict_left_mono) simp_all
    finally show ?thesis by (simp add: x)
  qed
  show "2 powi exponent_of x \<le> x"
    using lower by (auto simp: exponent_of_def q Let_def)
  show "x < 2 powi (exponent_of x + 1)"
    using upper by (auto simp: exponent_of_def q Let_def not_le)
qed

lemma exponent_of_unique:
  assumes "0 < x" and "2 powi e \<le> x" and "x < 2 powi (e + 1)"
  shows "exponent_of x = e"
proof -
  note b = exponent_of_bounds [OF assms(1)]
  have "(2::rat) powi e < 2 powi (exponent_of x + 1)"
    using assms(2) b(2) by simp
  then have 1: "e < exponent_of x + 1"
    using power_int_increasing [of "exponent_of x + 1" e "2::rat"] by (cases "e < exponent_of x + 1") auto
  have "(2::rat) powi exponent_of x < 2 powi (e + 1)"
    using assms(3) b(1) by simp
  then have 2: "exponent_of x < e + 1"
    using power_int_increasing [of "e + 1" "exponent_of x" "2::rat"] by (cases "exponent_of x < e + 1") auto
  from 1 2 show ?thesis by simp
qed

lemma nearest_double_pos:
  "0 < x \<Longrightarrow>
     nearest_double x =
       of_int (round_half_even (x / 2 powi max (exponent_of x - 52) (- 1074))) *
       2 powi max (exponent_of x - 52) (- 1074)"
  by (simp add: nearest_double_def Let_def)

lemma exponent_of_mono:
  assumes "0 < x" and "x \<le> y"
  shows "exponent_of x \<le> exponent_of y"
proof -
  have y: "0 < y" using assms by simp
  have "(2::rat) powi exponent_of x < 2 powi (exponent_of y + 1)"
    using exponent_of_bounds(1) [OF assms(1)] exponent_of_bounds(2) [OF y] assms(2) by simp
  then have "exponent_of x < exponent_of y + 1"
    using power_int_increasing [of "exponent_of y + 1" "exponent_of x" "2::rat"]
    by (cases "exponent_of x < exponent_of y + 1") auto
  then show ?thesis by simp
qed

lemma nearest_double_nonneg: "0 \<le> x \<Longrightarrow> 0 \<le> nearest_double x"
proof (cases "x = 0")
  case True
  then show ?thesis by (simp add: nearest_double_def)
next
  case False
  assume "0 \<le> x"
  with False have x: "0 < x" by simp
  let ?u = "(2::rat) powi max (exponent_of x - 52) (- 1074)"
  have "round_half_even 0 \<le> round_half_even (x / ?u)"
    using x by (intro round_half_even_mono) simp
  then have "0 \<le> round_half_even (x / ?u)"
    by (simp add: round_half_even_def)
  then show ?thesis
    by (simp add: nearest_double_pos [OF x])
qed

lemma nearest_double_mono_pos:
  assumes "0 < x" and "x \<le> y"
  shows "nearest_double x \<le> nearest_double y"
proof -
  have y: "0 < y" using assms by simp
  define ex ey where "ex = exponent_of x" and "ey = exponent_of y"
  define kx ky where "kx = max (ex - 52) (- 1074)" and "ky = max (ey - 52) (- 1074)"
  have e: "ex \<le> ey"
    unfolding ex_def ey_def by (rule exponent_of_mono [OF assms])
  then have k: "kx \<le> ky" by (simp add: kx_def ky_def)
  have nx: "nearest_double x = of_int (round_half_even (x / 2 powi kx)) * 2 powi kx"
    unfolding kx_def ex_def by (rule nearest_double_pos [OF assms(1)])
  have ny: "nearest_double y = of_int (round_half_even (y / 2 powi ky)) * 2 powi ky"
    unfolding ky_def ey_def by (rule nearest_double_pos [OF y])
  show ?thesis
  proof (cases "kx = ky")
    case True
    have "x / 2 powi ky \<le> y / 2 powi ky"
      using assms(2) by (simp add: divide_right_mono)
    then have "round_half_even (x / 2 powi ky) \<le> round_half_even (y / 2 powi ky)"
      by (rule round_half_even_mono)
    then have "(of_int (round_half_even (x / 2 powi ky)) :: rat) * 2 powi ky
                 \<le> of_int (round_half_even (y / 2 powi ky)) * 2 powi ky"
      by (intro mult_right_mono) simp_all
    then show ?thesis by (simp add: nx ny True)
  next
    case False
    with k have lt: "kx < ky" by simp
    then have ky: "ky = ey - 52" and exy: "ex < ey" and kxe: "kx < ey"
      by (auto simp: kx_def ky_def)
    have up: "nearest_double x \<le> 2 powi ey"
    proof -
      have "x < 2 powi (ex + 1)"
        unfolding ex_def by (rule exponent_of_bounds(2) [OF assms(1)])
      also have "\<dots> \<le> 2 powi ey"
        using exy by (intro power_int_increasing) simp_all
      finally have "x / 2 powi kx \<le> 2 powi ey / 2 powi kx"
        by (simp add: divide_right_mono)
      also have "\<dots> = 2 powi (ey - kx)"
        by (simp add: power_int_diff)
      also have "\<dots> = of_int (2 ^ nat (ey - kx))"
        using kxe by (simp add: power_int_nonneg_exp)
      finally have "round_half_even (x / 2 powi kx) \<le> round_half_even (of_int (2 ^ nat (ey - kx)))"
        by (rule round_half_even_mono)
      then have "round_half_even (x / 2 powi kx) \<le> 2 ^ nat (ey - kx)"
        by (simp only: round_half_even_of_int)
      then have "(of_int (round_half_even (x / 2 powi kx)) :: rat) \<le> of_int (2 ^ nat (ey - kx))"
        by (simp only: of_int_le_iff)
      then have "nearest_double x \<le> of_int (2 ^ nat (ey - kx)) * 2 powi kx"
        unfolding nx by (intro mult_right_mono) simp_all
      also have "\<dots> = 2 powi (ey - kx) * 2 powi kx"
        using kxe by (simp add: power_int_nonneg_exp)
      also have "\<dots> = 2 powi ey"
        by (simp flip: power_int_add)
      finally show ?thesis .
    qed
    have lo: "2 powi ey \<le> nearest_double y"
    proof -
      have "(of_int (2 ^ 52) :: rat) = 2 powi ey / 2 powi ky"
        by (simp add: ky flip: power_int_diff)
      also have "\<dots> \<le> y / 2 powi ky"
        using exponent_of_bounds(1) [OF y] by (simp add: ey_def divide_right_mono)
      finally have "round_half_even (of_int (2 ^ 52)) \<le> round_half_even (y / 2 powi ky)"
        by (rule round_half_even_mono)
      then have "2 ^ 52 \<le> round_half_even (y / 2 powi ky)"
        by (simp only: round_half_even_of_int)
      then have "(of_int (2 ^ 52) :: rat) \<le> of_int (round_half_even (y / 2 powi ky))"
        by (simp only: of_int_le_iff)
      then have "of_int (2 ^ 52) * 2 powi ky \<le> nearest_double y"
        unfolding ny by (intro mult_right_mono) simp_all
      moreover have "(of_int (2 ^ 52) :: rat) * 2 powi ky = 2 powi ey"
      proof -
        have "(of_int (2 ^ 52) :: rat) * 2 powi ky = 2 powi 52 * 2 powi (ey - 52)"
          by (simp add: ky)
        also have "\<dots> = 2 powi (52 + (ey - 52))"
          by (subst power_int_add) simp_all
        finally show ?thesis by simp
      qed
      ultimately show ?thesis by simp
    qed
    from up lo show ?thesis by simp
  qed
qed

lemma nearest_double_mono:
  assumes "0 \<le> x" and "x \<le> y"
  shows "nearest_double x \<le> nearest_double y"
proof (cases "x = 0")
  case True
  then show ?thesis
    using assms nearest_double_nonneg [of y] by (simp add: nearest_double_def)
next
  case False
  with assms(1) have "0 < x" by simp
  then show ?thesis using assms(2) by (rule nearest_double_mono_pos)
qed

lemma nearest_double_nat:
  assumes "k < 2 ^ 53"
  shows "nearest_double (of_nat k) = of_nat k"
proof (cases "k = 0")
  case True
  then show ?thesis by (simp add: nearest_double_def)
next
  case False
  define x :: rat where "x = of_nat k"
  define e where "e = exponent_of x"
  have x: "0 < x" and x1: "1 \<le> x" using False by (simp_all add: x_def)
  have lo: "2 powi e \<le> x" and hi: "x < 2 powi (e + 1)"
    unfolding e_def by (rule exponent_of_bounds [OF x])+
  have e0: "0 \<le> e"
  proof (rule ccontr)
    assume "\<not> 0 \<le> e"
    then have "e + 1 \<le> 0" by simp
    then have "(2::rat) powi (e + 1) \<le> 2 powi 0"
      by (intro power_int_increasing) simp_all
    with hi x1 show False by simp
  qed
  have e52: "e \<le> 52"
  proof (rule ccontr)
    assume "\<not> e \<le> 52"
    then have "53 \<le> e" by simp
    then have "(2::rat) powi 53 \<le> 2 powi e"
      by (intro power_int_increasing) simp_all
    moreover have "(of_nat k :: rat) < of_nat (2 ^ 53)"
      using assms by (simp only: of_nat_less_iff)
    then have "x < 2 powi 53"
      by (simp add: x_def)
    ultimately show False using lo by simp
  qed
  define j where "j = nat (52 - e)"
  have j: "52 - e = int j" using e52 by (simp add: j_def)
  have m: "max (e - 52) (- 1074) = e - 52" using e0 by simp
  have "e - 52 = - int j" using j by simp
  then have inv: "(2::rat) powi (e - 52) = inverse (2 ^ j)"
    by (simp only: power_int_minus power_int_of_nat)
  have q: "x / 2 powi (e - 52) = of_int (int k * 2 ^ j)"
    unfolding inv by (simp add: x_def divide_inverse)
  have "nearest_double x = of_int (round_half_even (x / 2 powi (e - 52))) * 2 powi (e - 52)"
    using nearest_double_pos [OF x] by (simp only: e_def [symmetric] m)
  also have "\<dots> = of_int (int k * 2 ^ j) * 2 powi (e - 52)"
    by (simp only: q round_half_even_of_int)
  also have "\<dots> = x"
    unfolding inv by (simp add: x_def)
  finally show ?thesis by (simp add: x_def)
qed


lemma round_half_even_above:
  assumes "of_int k + 1 / 2 < x"
  shows "k + 1 \<le> round_half_even x"
proof -
  have "\<bar>of_int (round_half_even x) - x\<bar> \<le> 1 / 2"
    by (rule round_half_even_close)
  then have "x - 1 / 2 \<le> of_int (round_half_even x)" by linarith
  with assms have "(of_int k :: rat) < of_int (round_half_even x)" by linarith
  then show ?thesis by simp
qed

lemma double_constants:
  "nearest_double (1 / 2) = 1 / 2"
  "nearest_double 50 = 50"
  "nearest_double 100 = 100"
  "nearest_double (50 + 1 / 2 ^ 47) = 50 + 1 / 2 ^ 47"
  by code_simp+

lemma nearest_double_above_half:
  assumes "1 / 2 + 1 / 2 ^ 54 < t" and "t < 1"
  shows "1 / 2 + 1 / 2 ^ 53 \<le> nearest_double t"
proof -
  have t: "0 < t" using assms(1) by (simp add: add_pos_pos less_trans [rotated])
  have "exponent_of t = - 1"
  proof (rule exponent_of_unique [OF t])
    show "2 powi (- 1) \<le> t" using assms(1) by (simp add: power_int_minus)
    show "t < 2 powi (- 1 + 1)" using assms(2) by simp
  qed
  then have nd: "nearest_double t = of_int (round_half_even (t / 2 powi (- 53))) * 2 powi (- 53)"
    by (simp add: nearest_double_pos [OF t])
  have "of_int (2 ^ 52) + 1 / 2 < t / 2 powi (- 53)"
    using assms(1) by (simp add: power_int_minus field_simps)
  then have "2 ^ 52 + 1 \<le> round_half_even (t / 2 powi (- 53))"
    by (rule round_half_even_above)
  then have "(of_int (2 ^ 52 + 1) :: rat) \<le> of_int (round_half_even (t / 2 powi (- 53)))"
    by (simp only: of_int_le_iff)
  then have "of_int (2 ^ 52 + 1) * 2 powi (- 53) \<le> nearest_double t"
    unfolding nd by (intro mult_right_mono) simp_all
  then show ?thesis by (simp add: power_int_minus field_simps)
qed

lemma threshold_on_doubles:
  assumes "c \<le> n" and "0 < n" and "n < 2 ^ 53"
  shows "50 < nearest_double (nearest_double (nearest_double (of_nat c) / nearest_double (of_nat n)) * 100)
           \<longleftrightarrow> 50 < (of_nat c / of_nat n * 100 :: rat)"
proof -
  define t :: rat where "t = of_nat c / of_nat n"
  have c53: "c < 2 ^ 53" using assms by simp
  have fl: "nearest_double (of_nat c) / nearest_double (of_nat n) = t"
    by (simp add: nearest_double_nat [OF c53] nearest_double_nat [OF assms(3)] t_def)
  have t0: "0 \<le> t" by (simp add: t_def)
  have t1: "t \<le> 1" using assms by (simp add: t_def)
  have n0: "(0::rat) < of_nat n" using assms(2) by simp
  show ?thesis
    unfolding fl t_def [symmetric]
  proof
    assume a: "50 < nearest_double (nearest_double t * 100)"
    show "50 < t * 100"
    proof (rule ccontr)
      assume "\<not> 50 < t * 100"
      then have "t \<le> 1 / 2" by simp
      then have "nearest_double t \<le> 1 / 2"
        using nearest_double_mono [OF t0, of "1 / 2"] by (simp add: double_constants)
      then have "nearest_double t * 100 \<le> 50" by simp
      moreover have "0 \<le> nearest_double t * 100"
        using nearest_double_nonneg [OF t0] by simp
      ultimately have "nearest_double (nearest_double t * 100) \<le> 50"
        using nearest_double_mono [of "nearest_double t * 100" 50] by (simp add: double_constants)
      with a show False by simp
    qed
  next
    assume "50 < t * 100"
    then have half: "1 / 2 < t" by simp
    show "50 < nearest_double (nearest_double t * 100)"
    proof (cases "t = 1")
      case True
      have "nearest_double (1::rat) = 1"
        using nearest_double_nat [of 1] by simp
      then show ?thesis by (simp add: True double_constants)
    next
      case False
      with t1 have lt1: "t < 1" by simp
      have "of_nat n < (2 * of_nat c :: rat)"
        using half n0 by (simp add: t_def field_simps)
      then have "(of_nat n :: rat) < of_nat (2 * c)" by simp
      then have "n < 2 * c"
        by (simp only: of_nat_less_iff)
      then have "n + 1 \<le> 2 * c" by simp
      then have "(of_nat (n + 1) :: rat) \<le> of_nat (2 * c)"
        by (simp only: of_nat_le_iff)
      then have "(of_nat n + 1 :: rat) \<le> 2 * of_nat c"
        by simp
      then have "(of_nat n + 1) / (2 * of_nat n) \<le> (2 * of_nat c) / (2 * of_nat n :: rat)"
        by (rule divide_right_mono) simp
      moreover have "(of_nat n + 1) / (2 * of_nat n) = (1 / 2 + 1 / (2 * of_nat n) :: rat)"
        using n0 by (simp add: field_simps)
      moreover have "(2 * of_nat c) / (2 * of_nat n :: rat) = t"
        by (simp add: t_def)
      ultimately have "1 / 2 + 1 / (2 * of_nat n) \<le> t"
        by simp
      moreover have "(1::rat) / 2 ^ 54 < 1 / (2 * of_nat n)"
      proof -
        have "(of_nat n :: rat) < of_nat (2 ^ 53)"
          using assms(3) by (simp only: of_nat_less_iff)
        then have "(of_nat n :: rat) < 2 ^ 53"
          by simp
        then have "2 * (of_nat n :: rat) < 2 ^ 54" by simp
        then show ?thesis using n0 by (intro divide_strict_left_mono mult_pos_pos) simp_all
      qed
      ultimately have "1 / 2 + 1 / 2 ^ 54 < t" by linarith
      then have "1 / 2 + 1 / 2 ^ 53 \<le> nearest_double t"
        using lt1 by (rule nearest_double_above_half)
      then have "50 + 100 / 2 ^ 53 \<le> nearest_double t * 100" by simp
      moreover have "(50::rat) + 1 / 2 ^ 47 \<le> 50 + 100 / 2 ^ 53" by simp
      ultimately have le: "50 + 1 / 2 ^ 47 \<le> nearest_double t * 100" by linarith
      have "nearest_double (50 + 1 / 2 ^ 47) \<le> nearest_double (nearest_double t * 100)"
        by (rule nearest_double_mono [OF _ le]) simp
      then have "50 + 1 / 2 ^ 47 \<le> nearest_double (nearest_double t * 100)"
        by (simp only: double_constants)
      moreover have "(50::rat) < 50 + 1 / 2 ^ 47" by simp
      ultimately show ?thesis by (rule less_le_trans [rotated])
    qed
  qed
qed

text \<open>
  The test \<^verbatim>\<open>null_percentage > MAX_NULL_PERCENTAGE\<close> on the double of the source and the
  test on the exact quotient in \<open>null_loop\<close> agree.
\<close>

lemma threshold_test_on_doubles:
  assumes "0 < len df" and "len df < 2 ^ 53"
  shows "MAX_NULL_PERCENTAGE < finite_value (null_percentage_of df c) \<longleftrightarrow>
         MAX_NULL_PERCENTAGE < of_nat (null_count_of df c) / of_nat (len df) * 100"
  using threshold_on_doubles [OF null_count_le_len assms] assms(1)
  by (simp add: null_percentage_of_def finite_value_def MAX_NULL_PERCENTAGE_def)

section \<open>Properties of the loader and the driver\<close>

lemma distinct_add_column: "distinct cols \<Longrightarrow> distinct (add_column cols k)"
  by (simp add: add_column_def)

lemma distinct_foldl_add_column: "distinct cols \<Longrightarrow> distinct (foldl add_column cols ks)"
  by (induction ks arbitrary: cols) (simp_all add: distinct_add_column)

lemma distinct_columns_of_aux:
  "distinct cols \<Longrightarrow> distinct (foldl (\<lambda>cols r. foldl add_column cols (map fst r)) cols data)"
  by (induction data arbitrary: cols) (simp_all add: distinct_foldl_add_column)

lemma distinct_columns_of: "distinct (columns_of data)"
  by (simp add: columns_of_def distinct_columns_of_aux)

text \<open>A frame built from records has distinct column labels.\<close>

lemma distinct_columns_DataFrame_of: "distinct (columns (DataFrame_of data))"
  by (simp add: DataFrame_of_def distinct_columns_of)

lemma fetch_all_one_page:
  "length page < 10000 \<Longrightarrow>
     fetch_all_brfss_data (one_page page) (Some []) None = Some (Inr page)"
  unfolding fetch_all_brfss_data_def
  by (subst fetch_loop.simps) (simp add: one_page_served cap_reached_None)

lemma perform_calls:
  "calls (snd (perform c operation s)) = calls s @ [c]"
  by (simp add: perform_def split: prod.splits)

lemma perform_callsD:
  "perform c operation s = (r, s') \<Longrightarrow> calls s' = calls s @ [c]"
  by (auto simp: perform_def split: prod.splits)

lemma ensure_dataset_calls:
  "\<exists>rest. calls (snd (ensure_dataset cl dataset_ref s)) = calls s @ GetDataset dataset_ref # rest"
  by (auto simp: ensure_dataset_def perform_def split: prod.splits sum.splits)

lemma replace_table_calls:
  "\<exists>rest. calls (snd (replace_table cl df table_ref s)) = calls s @ rest"
proof -
  let ?cfg = "\<lparr>write_disposition = WRITE_TRUNCATE, autodetect = True\<rparr>"
  obtain r1 s1 where p1: "perform (LoadTableFromDataframe df table_ref ?cfg)
      (load_table_from_dataframe cl df table_ref ?cfg) s = (r1, s1)"
    by (cases "perform (LoadTableFromDataframe df table_ref ?cfg)
      (load_table_from_dataframe cl df table_ref ?cfg) s")
  obtain r2 s2 where p2: "perform JobResult (job_result cl) s1 = (r2, s2)"
    by (cases "perform JobResult (job_result cl) s1")
  have c1: "calls s1 = calls s @ [LoadTableFromDataframe df table_ref ?cfg]"
    using p1 by (rule perform_callsD)
  have c2: "calls s2 = calls s1 @ [JobResult]"
    using p2 by (rule perform_callsD)
  show ?thesis
    using p1 p2 c1 c2 perform_calls [of "GetTable table_ref" "get_table cl table_ref" s2]
    by (cases r1; cases r2) (simp_all add: replace_table_def)
qed

lemma load_to_bigquery_calls:
  "\<exists>rest. calls (snd (load_to_bigquery cl df project_id dataset_id table_id (Some key) s)) =
     calls s @ NewClient (if key \<noteq> [] then Some key else None) project_id # rest"
proof -
  let ?cr = "if key \<noteq> [] then Some key else None"
  let ?ref = "project_id @ ''.'' @ dataset_id"
  obtain r1 s1 where p1: "perform (NewClient ?cr project_id) (new_client cl ?cr project_id) s =
      (r1, s1)"
    by (cases "perform (NewClient ?cr project_id) (new_client cl ?cr project_id) s")
  have c1: "calls s1 = calls s @ [NewClient ?cr project_id]"
    using p1 by (rule perform_callsD)
  obtain r2 s2 where p2: "ensure_dataset cl ?ref s1 = (r2, s2)"
    by (cases "ensure_dataset cl ?ref s1")
  obtain rest2 where c2: "calls s2 = calls s1 @ rest2"
    using ensure_dataset_calls [of cl ?ref s1] p2 by auto
  obtain rest3 where c3: "calls (snd (replace_table cl df (?ref @ ''.'' @ table_id) s2)) =
      calls s2 @ rest3"
    using replace_table_calls by blast
  show ?thesis
    using p1 p2 c1 c2 c3
    by (cases r1; cases r2) (simp_all add: load_to_bigquery_def)
qed





lemma service_account_key_given:
  "SERVICE_ACCOUNT_KEY \<noteq> ''path/to/your-service-account-key.json''" "SERVICE_ACCOUNT_KEY \<noteq> []"
  by (simp_all add: SERVICE_ACCOUNT_KEY_def)

lemma main_with_data_passed:
  assumes "data \<noteq> []" and "validate_data (DataFrame_of data) = (lg, Inr (True, ws))"
  shows "main_with_data cl data s =
     (case load_to_bigquery cl (DataFrame_of data) PROJECT_ID DATASET_ID TABLE_ID
             (Some SERVICE_ACCOUNT_KEY) s of
        (Inl e, s') \<Rightarrow> \<lparr>exit_code = 1, logged = lg @ [(ERROR, PipelineFailed e)], session = s'\<rparr>
      | (Inr t, s') \<Rightarrow>
          \<lparr>exit_code = 0,
           logged = lg @ [(INFO, PipelineCompleted (len (DataFrame_of data))
             (table_project t @ ''.'' @ table_dataset_id t @ ''.'' @ table_table_id t))],
           session = s'\<rparr>)"
  using assms service_account_key_given
  by (simp add: main_with_data_def Let_def)

text \<open>
  C5. A table that passes the row count and column checks (its labels distinct, as in
  every frame built from records) passes validation whatever its null percentages: the report is \<open>passed = True\<close>, no error line is logged, and each
  column above \<open>MAX_NULL_PERCENTAGE = 50\<close> is named in a logged warning. The driver then
  calls the loader: its session is the one the loader leaves, beginning with the
  creation of the client, and its exit status is 0 exactly when the loader returns a
  table.
\<close>

theorem high_nulls_warn_only:
  assumes "MIN_ROW_COUNT \<le> len df" and "columns df \<noteq> []" and "distinct (columns df)"
  shows "(\<exists>lg. validate_data df = (lg, Inr (True, []))
            \<and> ERROR \<notin> fst ` set lg
            \<and> (\<forall>c\<in>set (columns df).
                  MAX_NULL_PERCENTAGE < of_nat (null_count_of df c) / of_nat (len df) * 100 \<longrightarrow>
                  (\<exists>cf. (WARNING, HighNulls cf) \<in> set lg
                      \<and> (c, of_nat (null_count_of df c) / of_nat (len df) * 100) \<in> set cf)))
         \<and> (df = DataFrame_of data \<longrightarrow>
              session (main_with_data cl data s) =
                snd (load_to_bigquery cl df PROJECT_ID DATASET_ID TABLE_ID
                       (Some SERVICE_ACCOUNT_KEY) s)
            \<and> (\<exists>rest. calls (session (main_with_data cl data s)) =
                   calls s @ NewClient (Some SERVICE_ACCOUNT_KEY) PROJECT_ID # rest)
            \<and> (exit_code (main_with_data cl data s) = 0 \<longleftrightarrow>
                 (\<exists>t. fst (load_to_bigquery cl df PROJECT_ID DATASET_ID TABLE_ID
                       (Some SERVICE_ACCOUNT_KEY) s) = Inr t)))"
proof (intro conjI impI)
  let ?pct = "\<lambda>c. of_nat (null_count_of df c) / of_nat (len df) * (100 :: rat)"
  let ?row = "\<lambda>c. \<lparr>column = c, null_count = null_count_of df c,
                      null_percentage = np_round2 (null_percentage_of df c)\<rparr>"
  let ?high = "filter (\<lambda>c. MAX_NULL_PERCENTAGE < ?pct c) (columns df)"
  let ?lg = "(if missing_columns df \<noteq> []
              then [(WARNING, MissingColumns (sort (missing_columns df)))] else []) @
      [(INFO, NullReport (sort_values_desc (map ?row (columns df))))] @
      (if ?high \<noteq> [] then [(WARNING, HighNulls (map (\<lambda>c. (c, ?pct c)) ?high))] else [])"
  have v: "validate_data df = (?lg, Inr (True, []))"
    by (rule validate_data_passes [OF assms])
  have noerr: "ERROR \<notin> fst ` set ?lg"
    by auto
  have warn: "\<forall>c\<in>set (columns df). MAX_NULL_PERCENTAGE < ?pct c \<longrightarrow>
      (\<exists>cf. (WARNING, HighNulls cf) \<in> set ?lg \<and> (c, ?pct c) \<in> set cf)"
  proof (intro ballI impI)
    fix c assume c: "c \<in> set (columns df)" "MAX_NULL_PERCENTAGE < ?pct c"
    then have h: "c \<in> set ?high" by simp
    have "?high \<noteq> []"
    proof
      assume e: "?high = []"
      from h show False unfolding e by simp
    qed
    moreover from h have "(c, ?pct c) \<in> set (map (\<lambda>c. (c, ?pct c)) ?high)"
      by (rule imageI [of c "set ?high" "\<lambda>c. (c, ?pct c)", folded set_map])
    ultimately have "?high \<noteq> []" and "(c, ?pct c) \<in> set (map (\<lambda>c. (c, ?pct c)) ?high)"
      by blast+
    then show "\<exists>cf. (WARNING, HighNulls cf) \<in> set ?lg \<and> (c, ?pct c) \<in> set cf"
      by (intro exI [of _ "map (\<lambda>c. (c, ?pct c)) ?high"]) simp
  qed
  show "\<exists>lg. validate_data df = (lg, Inr (True, []))
            \<and> ERROR \<notin> fst ` set lg
            \<and> (\<forall>c\<in>set (columns df). MAX_NULL_PERCENTAGE < ?pct c \<longrightarrow>
                  (\<exists>cf. (WARNING, HighNulls cf) \<in> set lg \<and> (c, ?pct c) \<in> set cf))"
    using v noerr warn by blast
  assume d: "df = DataFrame_of data"
  have ne: "data \<noteq> []"
    using assms(1) d by (auto simp: len_def DataFrame_of_def MIN_ROW_COUNT_def)
  note m = main_with_data_passed [OF ne v [unfolded d], of cl s]
  show "session (main_with_data cl data s) =
          snd (load_to_bigquery cl df PROJECT_ID DATASET_ID TABLE_ID (Some SERVICE_ACCOUNT_KEY) s)"
    unfolding m d by (simp split: prod.splits sum.splits)
  then show "\<exists>rest. calls (session (main_with_data cl data s)) =
                   calls s @ NewClient (Some SERVICE_ACCOUNT_KEY) PROJECT_ID # rest"
    using load_to_bigquery_calls [of cl df PROJECT_ID DATASET_ID TABLE_ID SERVICE_ACCOUNT_KEY s]
    by (simp add: service_account_key_given)
  show "exit_code (main_with_data cl data s) = 0 \<longleftrightarrow>
          (\<exists>t. fst (load_to_bigquery cl df PROJECT_ID DATASET_ID TABLE_ID
                       (Some SERVICE_ACCOUNT_KEY) s) = Inr t)"
    unfolding m d by (simp split: prod.splits sum.splits)
qed

lemma load_to_bigquery_ok_client:
  "load_to_bigquery ok_client df PROJECT_ID DATASET_ID TABLE_ID (Some SERVICE_ACCOUNT_KEY)
     \<lparr>world = w, calls = cs\<rparr> =
   (Inr \<lparr>table_project = PROJECT_ID, table_dataset_id = DATASET_ID, table_table_id = TABLE_ID,
          table_num_rows = len df\<rparr>,
    \<lparr>world = len df,
     calls = cs @
       [NewClient (Some SERVICE_ACCOUNT_KEY) PROJECT_ID,
        GetDataset (PROJECT_ID @ ''.'' @ DATASET_ID),
        CreateDataset (PROJECT_ID @ ''.'' @ DATASET_ID) ''US'',
        LoadTableFromDataframe df (PROJECT_ID @ ''.'' @ DATASET_ID @ ''.'' @ TABLE_ID)
          \<lparr>write_disposition = WRITE_TRUNCATE, autodetect = True\<rparr>,
        JobResult,
        GetTable (PROJECT_ID @ ''.'' @ DATASET_ID @ ''.'' @ TABLE_ID)]\<rparr>)"
  using service_account_key_given
  by (simp add: load_to_bigquery_def ensure_dataset_def replace_table_def perform_def
      ok_client_def)

lemma sparse_frame:
  "len (DataFrame_of sparse_data) = 500"
  "columns (DataFrame_of sparse_data) = [''data_value'']"
  "null_count_of (DataFrame_of sparse_data) ''data_value'' = 300"
proof -
  show "len (DataFrame_of sparse_data) = 500"
    by (simp add: len_def DataFrame_of_def sparse_data_def)
  have "columns_of sparse_data = [''data_value'']"
    unfolding sparse_data_def columns_of_def by code_simp
  then show "columns (DataFrame_of sparse_data) = [''data_value'']"
    by (simp add: DataFrame_of_def)
  show "null_count_of (DataFrame_of sparse_data) ''data_value'' = 300"
    by (simp add: null_count_of_def DataFrame_of_def sparse_data_def isna_def)
qed

text \<open>
  500 rows whose column \<^verbatim>\<open>data_value\<close> is null in 300: validation passes with the
  warning for 60 percent, and with the example client the run ends with status 0 and 500
  rows in the table.
\<close>

theorem high_nulls_warn_only_witness:
  "MIN_ROW_COUNT \<le> len (DataFrame_of sparse_data)
   \<and> columns (DataFrame_of sparse_data) = [''data_value'']
   \<and> distinct (columns (DataFrame_of sparse_data))
   \<and> of_nat (null_count_of (DataFrame_of sparse_data) ''data_value'') /
       of_nat (len (DataFrame_of sparse_data)) * 100 = (60 :: rat)
   \<and> MAX_NULL_PERCENTAGE < 60
   \<and> (\<exists>lg cf. validate_data (DataFrame_of sparse_data) = (lg, Inr (True, []))
         \<and> (WARNING, HighNulls cf) \<in> set lg \<and> (''data_value'', 60) \<in> set cf)
   \<and> exit_code (main_with_data ok_client sparse_data \<lparr>world = 0, calls = []\<rparr>) = 0
   \<and> world (session (main_with_data ok_client sparse_data \<lparr>world = 0, calls = []\<rparr>)) = 500"
proof -
  let ?df = "DataFrame_of sparse_data"
  have h: "MIN_ROW_COUNT \<le> len ?df" "columns ?df \<noteq> []" "distinct (columns ?df)"
    by (simp_all add: sparse_frame MIN_ROW_COUNT_def)
  have p: "of_nat (null_count_of ?df ''data_value'') / of_nat (len ?df) * 100 = (60 :: rat)"
    by (simp add: sparse_frame)
  have m: "MAX_NULL_PERCENTAGE < 60"
    by (simp add: MAX_NULL_PERCENTAGE_def)
  note t = high_nulls_warn_only [OF h, of sparse_data ok_client "\<lparr>world = 0, calls = []\<rparr>"]
  from t obtain lg where lg: "validate_data ?df = (lg, Inr (True, []))"
    "\<forall>c\<in>set (columns ?df).
        MAX_NULL_PERCENTAGE < of_nat (null_count_of ?df c) / of_nat (len ?df) * 100 \<longrightarrow>
        (\<exists>cf. (WARNING, HighNulls cf) \<in> set lg
            \<and> (c, of_nat (null_count_of ?df c) / of_nat (len ?df) * 100) \<in> set cf)"
    by blast
  from lg(2) p m have "\<exists>cf. (WARNING, HighNulls cf) \<in> set lg \<and> (''data_value'', 60) \<in> set cf"
    by (simp add: sparse_frame)
  with lg(1) have v: "\<exists>lg cf. validate_data ?df = (lg, Inr (True, []))
         \<and> (WARNING, HighNulls cf) \<in> set lg \<and> (''data_value'', 60) \<in> set cf"
    by blast
  from t have "session (main_with_data ok_client sparse_data \<lparr>world = 0, calls = []\<rparr>) =
      snd (load_to_bigquery ok_client ?df PROJECT_ID DATASET_ID TABLE_ID
             (Some SERVICE_ACCOUNT_KEY) \<lparr>world = 0, calls = []\<rparr>)"
    and "exit_code (main_with_data ok_client sparse_data \<lparr>world = 0, calls = []\<rparr>) = 0 \<longleftrightarrow>
      (\<exists>t. fst (load_to_bigquery ok_client ?df PROJECT_ID DATASET_ID TABLE_ID
             (Some SERVICE_ACCOUNT_KEY) \<lparr>world = 0, calls = []\<rparr>) = Inr t)"
    by blast+
  then have x: "exit_code (main_with_data ok_client sparse_data \<lparr>world = 0, calls = []\<rparr>) = 0"
    "world (session (main_with_data ok_client sparse_data \<lparr>world = 0, calls = []\<rparr>)) = 500"
    by (simp_all add: load_to_bigquery_ok_client sparse_frame)
  show ?thesis
    using h(1,3) sparse_frame(2) p m v x by blast
qed

lemma main_with_data_exit_code:
  "exit_code (main_with_data cl data s) = 0 \<or> exit_code (main_with_data cl data s) = 1"
  by (auto simp: main_with_data_def Let_def split: prod.splits sum.splits)

lemma main_with_data_success_iff:
  "exit_code (main_with_data cl data s) = 0 \<longleftrightarrow>
     (\<exists>lg ws t s'. data \<noteq> []
        \<and> validate_data (DataFrame_of data) = (lg, Inr (True, ws))
        \<and> load_to_bigquery cl (DataFrame_of data) PROJECT_ID DATASET_ID TABLE_ID
             (Some SERVICE_ACCOUNT_KEY) s = (Inr t, s'))"
  using service_account_key_given
  by (auto simp: main_with_data_def Let_def split: prod.splits sum.splits)

text \<open>
  C7. Whenever the extraction returns, with records or with an exception, the driver ends
  with status 0 or 1; the status is 0 exactly when the extraction returned records, the
  validation passed and the loader returned a table. Where the extraction returned no
  record, the driver logs that no data was fetched and exits with status 1, having made
  no call to the warehouse and logged nothing of a validation.
\<close>

theorem driver_exit_status:
  assumes "fetch_all_brfss_data http (Some []) None = Some r"
  shows "\<exists>out. main http cl w = Some out
           \<and> (exit_code out = 0 \<or> exit_code out = 1)
           \<and> (exit_code out = 0 \<longleftrightarrow>
                (\<exists>data lg ws t s'. r = Inr data \<and> data \<noteq> []
                   \<and> validate_data (DataFrame_of data) = (lg, Inr (True, ws))
                   \<and> load_to_bigquery cl (DataFrame_of data) PROJECT_ID DATASET_ID TABLE_ID
                        (Some SERVICE_ACCOUNT_KEY) \<lparr>world = w, calls = []\<rparr> = (Inr t, s')))
           \<and> (r = Inr [] \<longrightarrow>
                out = \<lparr>exit_code = 1, logged = [(ERROR, NoDataFetched)],
                       session = \<lparr>world = w, calls = []\<rparr>\<rparr>)"
proof (cases r)
  case (Inl e)
  then show ?thesis
    using assms by (simp add: main_def)
next
  case (Inr data)
  then have m: "main http cl w = Some (main_with_data cl data \<lparr>world = w, calls = []\<rparr>)"
    using assms by (simp add: main_def)
  have e: "data = [] \<Longrightarrow> main_with_data cl data \<lparr>world = w, calls = []\<rparr> =
      \<lparr>exit_code = 1, logged = [(ERROR, NoDataFetched)], session = \<lparr>world = w, calls = []\<rparr>\<rparr>"
    by (simp add: main_with_data_def)
  show ?thesis
    using main_with_data_exit_code [of cl data "\<lparr>world = w, calls = []\<rparr>"]
      main_with_data_success_iff [of cl data "\<lparr>world = w, calls = []\<rparr>"] e
    by (simp add: m Inr)
qed

lemma fetch_all_no_data:
  "fetch_all_brfss_data (one_page []) (Some []) None = Some (Inr [])"
  unfolding fetch_all_brfss_data_def
  by (subst fetch_loop.simps) (simp add: one_page_served)

text \<open>
  A source without records: status 1 and no call. The source with the 500 records and the
  example client: status 0.
\<close>

theorem driver_exit_status_witness:
  "fetch_all_brfss_data (one_page []) (Some []) None = Some (Inr [])
   \<and> main (one_page []) ok_client 0 =
       Some \<lparr>exit_code = 1, logged = [(ERROR, NoDataFetched)],
             session = \<lparr>world = 0, calls = []\<rparr>\<rparr>
   \<and> fetch_all_brfss_data (one_page sparse_data) (Some []) None = Some (Inr sparse_data)
   \<and> (\<exists>out. main (one_page sparse_data) ok_client 0 = Some out \<and> exit_code out = 0
         \<and> world (session out) = 500)"
proof -
  from driver_exit_status [OF fetch_all_no_data, of ok_client 0] obtain out where
    "main (one_page []) ok_client 0 = Some out"
    "(Inr [] :: exn + api_record list) = Inr [] \<longrightarrow>
       out = \<lparr>exit_code = 1, logged = [(ERROR, NoDataFetched)],
              session = \<lparr>world = 0, calls = []\<rparr>\<rparr>"
    by (elim exE conjE)
  then have 1: "main (one_page []) ok_client 0 =
       Some \<lparr>exit_code = 1, logged = [(ERROR, NoDataFetched)],
             session = \<lparr>world = 0, calls = []\<rparr>\<rparr>"
    by simp
  have f: "fetch_all_brfss_data (one_page sparse_data) (Some []) None = Some (Inr sparse_data)"
    by (rule fetch_all_one_page) (simp add: sparse_data_def)
  have h: "MIN_ROW_COUNT \<le> len (DataFrame_of sparse_data)"
    "columns (DataFrame_of sparse_data) \<noteq> []" "distinct (columns (DataFrame_of sparse_data))"
    by (simp_all add: sparse_frame MIN_ROW_COUNT_def)
  have ne: "sparse_data \<noteq> []"
    by (simp add: sparse_data_def)
  have m: "main (one_page sparse_data) ok_client 0 =
      Some (main_with_data ok_client sparse_data \<lparr>world = 0, calls = []\<rparr>)"
    by (simp add: main_def f)
  have x: "exit_code (main_with_data ok_client sparse_data \<lparr>world = 0, calls = []\<rparr>) = 0"
    "world (session (main_with_data ok_client sparse_data \<lparr>world = 0, calls = []\<rparr>)) = 500"
    by (simp_all add: main_with_data_passed [OF ne validate_data_passes [OF h]]
        load_to_bigquery_ok_client sparse_frame)
  have 2: "\<exists>out. main (one_page sparse_data) ok_client 0 = Some out \<and> exit_code out = 0
         \<and> world (session out) = 500"
    unfolding m using x by simp
  show ?thesis
    by (intro conjI fetch_all_no_data 1 f 2)
qed

end
